theory Spec2Isabelle
  imports Complex_Main
begin

section \<open>The interactive grid of \<open>src/components/InteractiveGrid.tsx\<close>\<close>

text \<open>
  The component keeps a list of cells, a pointer position and a clock, rebuilds the
  cells on every resize and, once per animation frame, updates every cell and paints it.

  Conventions of the embedding.
  \<^item> A JavaScript \<open>number\<close> is modelled as a \<open>real\<close>: arithmetic is exact, and the
    rounding, infinities and NaN of IEEE doubles are outside the model. Row, column and
    array indices are integers in the source and \<open>int\<close> or \<open>nat\<close> here.
  \<^item> \<open>Math.random()\<close> is a read from an explicit source of random numbers carried in
    the state: the infinite sequence of the results still to come.
  \<^item> The canvas context is a log of the operations issued on it.
  \<^item> The fields \<open>x\<close>, \<open>y\<close>, \<open>size\<close> and \<open>type\<close> of a cell carry the suffix
    \<open>_c\<close>, so that they do not capture the variables of the same names.
\<close>

subsection \<open>Data\<close>

datatype cell_type = Hex | Square | Diamond | Circuit

record Cell =
  x_c :: real
  y_c :: real
  size_c :: real
  hue :: real
  lightness :: real
  targetL :: real
  distortionX :: real
  distortionY :: real
  targetDistortionX :: real
  targetDistortionY :: real
  noiseOffset :: real
  isActivated :: bool
  activationTime :: real
  lastHoverTime :: real
  type_c :: cell_type
  connections :: "nat list"

type_synonym rng = "nat \<Rightarrow> real"

text \<open>One call of \<open>Math.random()\<close>: the next number, and the source advanced by one.\<close>

definition random :: "rng \<Rightarrow> real \<times> rng" where
  "random g = (g 0, \<lambda>n. g (Suc n))"

text \<open>The refs of the component: \<open>cellsRef\<close>, \<open>mouseRef\<close>, \<open>timeRef\<close>, and the random source.\<close>

record State =
  cells :: "Cell list"
  mouseX :: real
  mouseY :: real
  time :: real
  rng :: rng

definition TAU :: real where
  "TAU = pi * 2"

definition clamp :: "real \<Rightarrow> real \<Rightarrow> real \<Rightarrow> real" where
  "clamp v a b = max a (min b v)"

definition noise :: "real \<Rightarrow> real \<Rightarrow> real \<Rightarrow> real" where
  "noise px py t =
     (sin (px * 0.01 + t * 0.002) +
      sin (py * 0.015 + t * 0.003) +
      sin ((px + py) * 0.008 + t * 0.001)) * 0.33"

text \<open>
  \<open>Math.atan2\<close> of the ECMAScript library, on reals (there is no signed zero here; at
  the origin the library returns 0).
\<close>

definition atan2 :: "real \<Rightarrow> real \<Rightarrow> real" where
  "atan2 py px =
     (if 0 < px then arctan (py / px)
      else if px < 0 then (if 0 \<le> py then arctan (py / px) + pi else arctan (py / px) - pi)
      else if 0 < py then pi / 2
      else if py < 0 then - (pi / 2)
      else 0)"

subsection \<open>The grid builder\<close>

definition hexRadius :: real where
  "hexRadius = 25"

definition hexSpacing :: real where
  "hexSpacing = hexRadius * 1.8"

definition rowHeight :: real where
  "rowHeight = hexRadius * sqrt 3"

text \<open>
  The body of the inner loop of \<open>buildCells\<close> at the lattice point \<open>(px, py)\<close>: one draw
  decides whether the point gets a cell, and a cell takes four more draws (shape, colour
  band, hue inside the band, noise phase), in the order the source evaluates them.
\<close>

definition place_cell :: "real \<Rightarrow> real \<Rightarrow> Cell list \<times> rng \<Rightarrow> Cell list \<times> rng" where
  "place_cell px py st =
     (let (cs, g0) = st;
          (keep, g1) = random g0
      in if keep > 0.15 then
           (let (cellType, g2) = random g1;
                (ty, sz) =
                  (if cellType < 0.6 then (Hex, hexRadius)
                   else if cellType < 0.8 then (Square, hexRadius * 0.8)
                   else if cellType < 0.95 then (Diamond, hexRadius * 0.7)
                   else (Circuit, hexRadius * 0.5));
                (colorType, g3) = random g2;
                (shade, g4) = random g3;
                h = (if colorType < 0.3 then 180 + shade * 40
                     else if colorType < 0.5 then 220 + shade * 40
                     else if colorType < 0.7 then 120 + shade * 40
                     else 280 + shade * 40);
                (phase, g5) = random g4
            in (cs @ [\<lparr> x_c = px, y_c = py, size_c = sz, hue = h,
                        lightness = 0, targetL = 0,
                        distortionX = 0, distortionY = 0,
                        targetDistortionX = 0, targetDistortionY = 0,
                        noiseOffset = phase * TAU,
                        isActivated = False, activationTime = 0, lastHoverTime = 0,
                        type_c = ty, connections = [] \<rparr>], g5))
         else (cs, g1))"

text \<open>\<open>for (let col = 0; col < cols; col++)\<close> of row \<open>row\<close>, from column \<open>col\<close> on.\<close>

function col_loop :: "real \<Rightarrow> real \<Rightarrow> int \<Rightarrow> int \<Rightarrow> int \<Rightarrow> Cell list \<times> rng \<Rightarrow> Cell list \<times> rng" where
  "col_loop gx gy cols row col st =
     (if col < cols then
        (let offset = (if row mod 2 = 0 then 0 else hexSpacing / 2);
             px = gx + real_of_int col * hexSpacing + offset;
             py = gy + real_of_int row * rowHeight
         in col_loop gx gy cols row (col + 1) (place_cell px py st))
      else st)"
  by pat_completeness auto
termination
  by (relation "measure (\<lambda>(gx, gy, cols, row, col, st). nat (cols - col))") auto

declare col_loop.simps [simp del]

text \<open>\<open>for (let row = 0; row < rows; row++)\<close>, from row \<open>row\<close> on.\<close>

function row_loop :: "real \<Rightarrow> real \<Rightarrow> int \<Rightarrow> int \<Rightarrow> int \<Rightarrow> Cell list \<times> rng \<Rightarrow> Cell list \<times> rng" where
  "row_loop gx gy cols rows row st =
     (if row < rows then row_loop gx gy cols rows (row + 1) (col_loop gx gy cols row 0 st)
      else st)"
  by pat_completeness auto
termination
  by (relation "measure (\<lambda>(gx, gy, cols, rows, row, st). nat (rows - row))") auto

declare row_loop.simps [simp del]

text \<open>
  The body of the inner connection loop for the pair \<open>(i, j)\<close>. The random draw is behind
  the \<open>&&\<close>: it happens only for a pair that is close enough.
\<close>

definition connect_pair :: "nat \<Rightarrow> nat \<Rightarrow> Cell list \<times> rng \<Rightarrow> Cell list \<times> rng" where
  "connect_pair i j st =
     (let (cs, g0) = st;
          cell = cs ! i;
          other = cs ! j;
          distance = sqrt ((x_c cell - x_c other)\<^sup>2 + (y_c cell - y_c other)\<^sup>2)
      in if distance < hexSpacing * 2 then
           (let (r, g1) = random g0
            in if r > 0.7 then (cs[i := cell\<lparr>connections := connections cell @ [j]\<rparr>], g1)
               else (cs, g1))
         else (cs, g0))"

text \<open>\<open>for (let j = ...; j < cells.length; j++)\<close> for the owner \<open>i\<close>, from \<open>j\<close> on.\<close>

function inner_loop :: "nat \<Rightarrow> nat \<Rightarrow> Cell list \<times> rng \<Rightarrow> Cell list \<times> rng" where
  "inner_loop i j st =
     (if j < length (fst st) then inner_loop i (j + 1) (connect_pair i j st) else st)"
  by pat_completeness auto
termination
  by (relation "measure (\<lambda>(i, j, st). length (fst st) - j)")
     (auto simp: connect_pair_def Let_def split: prod.splits)

declare inner_loop.simps [simp del]

text \<open>\<open>for (let i = 0; i < cells.length; i++)\<close>, from \<open>i\<close> on; the inner loop starts at \<open>i + 1\<close>.\<close>

function outer_loop :: "nat \<Rightarrow> Cell list \<times> rng \<Rightarrow> Cell list \<times> rng" where
  "outer_loop i st =
     (if i < length (fst st) then outer_loop (i + 1) (inner_loop i (i + 1) st) else st)"
  by pat_completeness auto
termination
proof (relation "measure (\<lambda>(i, st). length (fst st) - i)")
  show "wf (measure (\<lambda>(i, st). length (fst st) - i))"
    by simp
next
  fix i :: nat and st :: "Cell list \<times> rng"
  assume lt: "i < length (fst st)"
  have len: "length (fst (inner_loop a j s)) = length (fst s)" for a j s
  proof (induction a j s rule: inner_loop.induct)
    case (1 a j s)
    show ?case
    proof (cases "j < length (fst s)")
      case True
      have "length (fst (connect_pair a j s)) = length (fst s)"
        by (simp add: connect_pair_def Let_def split: prod.splits)
      with True "1.IH" show ?thesis
        by (subst inner_loop.simps) simp
    next
      case False
      then show ?thesis
        by (subst inner_loop.simps) simp
    qed
  qed
  show "((i + 1, inner_loop i (i + 1) st), (i, st)) \<in> measure (\<lambda>(i, st). length (fst st) - i)"
    using lt by (simp add: len)
qed

declare outer_loop.simps [simp del]

text \<open>
  \<open>buildCells(w, h)\<close>: the lattice inside the working rectangle, then the connections.
  The result is the new cell list together with the random source after the build.
\<close>

definition buildCells :: "real \<Rightarrow> real \<Rightarrow> rng \<Rightarrow> Cell list \<times> rng" where
  "buildCells w h g =
     (let gx = w * 0.1; gy = h * 0.1; gw = w * 0.8; gh = h * 0.5;
          cols = \<lfloor>gw / hexSpacing\<rfloor>;
          rows = \<lfloor>gh / rowHeight\<rfloor>
      in outer_loop 0 (row_loop gx gy cols rows 0 ([], g)))"

subsection \<open>The simulation step\<close>

definition influenceRadius :: real where
  "influenceRadius = 80"

definition fadeOutDuration :: real where
  "fadeOutDuration = 2000"

definition cellDistance :: "Cell \<Rightarrow> real \<Rightarrow> real \<Rightarrow> real" where
  "cellDistance c mx my =
     (let dx = (x_c c + distortionX c) - mx;
          dy = (y_c c + distortionY c) - my
      in sqrt (dx * dx + dy * dy))"

text \<open>Lines 273 to 279: a hovered cell records the hover time and becomes activated.\<close>

definition hover_update :: "bool \<Rightarrow> real \<Rightarrow> Cell \<Rightarrow> Cell" where
  "hover_update isCurrentlyHovered t c =
     (if isCurrentlyHovered then
        (let c1 = c\<lparr>lastHoverTime := t\<rparr>
         in if \<not> isActivated c1 then c1\<lparr>isActivated := True, activationTime := t\<rparr> else c1)
      else c)"

text \<open>Lines 281 to 297: the brightness target.\<close>

definition brightness_update :: "bool \<Rightarrow> real \<Rightarrow> real \<Rightarrow> Cell \<Rightarrow> Cell" where
  "brightness_update isCurrentlyHovered d t c =
     (let timeSinceLastHover = t - lastHoverTime c
      in if isActivated c then
           (if isCurrentlyHovered then
              (let proximity = 1 - d / influenceRadius
               in c\<lparr>targetL := 70 + proximity * 30\<rparr>)
            else if timeSinceLastHover < fadeOutDuration then
              (let fadeProgress = timeSinceLastHover / fadeOutDuration;
                   baseBrightness = 65
               in c\<lparr>targetL := baseBrightness * (1 - fadeProgress)\<rparr>)
            else c\<lparr>targetL := 0, isActivated := False\<rparr>)
         else c\<lparr>targetL := 0\<rparr>)"

text \<open>Lines 299 to 318: the displacement target, pointer ripple plus noise.\<close>

definition distortion_update :: "real \<Rightarrow> real \<Rightarrow> real \<Rightarrow> real \<Rightarrow> Cell \<Rightarrow> Cell" where
  "distortion_update d mx my t c =
     (let c1 =
            (if d < influenceRadius * 1.5 then
               (let distortionStrength = 15;
                    techRipple = sin (d * 0.1 - t * 0.008) * 0.5 + 0.5;
                    angleToMouse = atan2 (my - y_c c) (mx - x_c c)
                in c\<lparr>targetDistortionX := cos angleToMouse * distortionStrength * techRipple,
                      targetDistortionY := sin angleToMouse * distortionStrength * techRipple\<rparr>)
             else c\<lparr>targetDistortionX := 0, targetDistortionY := 0\<rparr>);
          noiseScale = 3;
          organicX = noise (x_c c1) (y_c c1) (t + noiseOffset c1) * noiseScale;
          organicY = noise (y_c c1) (x_c c1) (t + noiseOffset c1 + 100) * noiseScale
      in c1\<lparr>targetDistortionX := targetDistortionX c1 + organicX,
             targetDistortionY := targetDistortionY c1 + organicY\<rparr>)"

text \<open>The body of the first loop of \<open>render\<close> (lines 269 to 319) for one cell.\<close>

definition simulate_cell :: "real \<Rightarrow> real \<Rightarrow> real \<Rightarrow> Cell \<Rightarrow> Cell" where
  "simulate_cell mx my t c =
     (let d = cellDistance c mx my;
          isCurrentlyHovered = d < influenceRadius
      in distortion_update d mx my t
           (brightness_update isCurrentlyHovered d t
              (hover_update isCurrentlyHovered t c)))"

text \<open>Lines 323 to 325: the easing of one cell.\<close>

definition animate_cell :: "Cell \<Rightarrow> Cell" where
  "animate_cell c =
     c\<lparr>lightness := lightness c + (targetL c - lightness c) * 0.2,
       distortionX := distortionX c + (targetDistortionX c - distortionX c) * 0.1,
       distortionY := distortionY c + (targetDistortionY c - distortionY c) * 0.1\<rparr>"

subsection \<open>The canvas\<close>

text \<open>
  A colour string of the source is kept as its components: \<open>hsl(h deg s% l%)\<close> and
  \<open>rgba(r, g, b, a)\<close>. An operation is one call or one property assignment on the
  2D context.
\<close>

datatype style = Hsl real real real | Rgba real real real real

datatype canvas_op =
    BeginPath
  | MoveTo real real
  | LineTo real real
  | ClosePath
  | Arc real real real real real
  | Fill
  | Stroke
  | Save
  | Restore
  | SetFillStyle style
  | SetStrokeStyle style
  | SetLineWidth real
  | SetLineDash "real list"
  | SetShadowColor style
  | SetShadowBlur real

text \<open>The corner \<open>i\<close> of a polygon path: \<open>moveTo\<close> for the first, \<open>lineTo\<close> after.\<close>

definition corner :: "nat \<Rightarrow> real \<Rightarrow> real \<Rightarrow> canvas_op" where
  "corner i px py = (if i = 0 then MoveTo px py else LineTo px py)"

definition drawCellShape :: "Cell \<Rightarrow> canvas_op list" where
  "drawCellShape cell =
     (let finalX = x_c cell + distortionX cell;
          finalY = y_c cell + distortionY cell;
          sz = size_c cell
      in BeginPath #
         (case type_c cell of
            Hex \<Rightarrow>
              map (\<lambda>i. let angle = (real i * TAU) / 6
                       in corner i (finalX + cos angle * sz) (finalY + sin angle * sz)) [0..<6]
              @ [ClosePath]
          | Square \<Rightarrow>
              map (\<lambda>i. let a = pi / 4 + (real i * TAU) / 4
                       in corner i (finalX + cos a * sz) (finalY + sin a * sz)) [0..<4]
              @ [ClosePath]
          | Diamond \<Rightarrow>
              [MoveTo finalX (finalY - sz), LineTo (finalX + sz) finalY,
               LineTo finalX (finalY + sz), LineTo (finalX - sz) finalY, ClosePath]
          | Circuit \<Rightarrow> [Arc finalX finalY sz 0 TAU]))"

text \<open>Lines 327 to 361: what the second loop paints for one cell, after its easing.\<close>

definition draw_cell :: "Cell \<Rightarrow> canvas_op list" where
  "draw_cell cell =
     (if lightness cell > 0.5 then
        (let saturation = min (90 + lightness cell * 0.1) 100;
             fill = Hsl (hue cell) saturation (lightness cell);
             strokeOpacity = clamp (lightness cell / 100) 0.1 0.8
         in [Save] @ drawCellShape cell @ [SetFillStyle fill, Fill]
            @ [SetLineWidth (if type_c cell = Circuit then 3 else 2),
               SetStrokeStyle (Rgba 255 255 255 strokeOpacity), Stroke]
            @ (if lightness cell > 40 then
                 [SetShadowColor fill, SetShadowBlur (lightness cell * 0.5), Stroke,
                  SetShadowBlur 0]
               else [])
            @ (if type_c cell = Circuit \<and> lightness cell > 30 then
                 [BeginPath,
                  Arc (x_c cell + distortionX cell) (y_c cell + distortionY cell)
                      (size_c cell * 0.3) 0 TAU,
                  SetFillStyle (Rgba 255 255 255 0.8), Fill]
               else [])
            @ [Restore])
      else [])"

text \<open>
  \<open>drawConnections\<close>: the pairs (owner, target) of cell indices whose line is stroked,
  in the order of the two nested loops. An entry of \<open>connections\<close> outside the array
  reads \<open>undefined\<close> in the source and is skipped by the guard \<open>target &&\<close>.
\<close>

definition drawn_connections :: "Cell list \<Rightarrow> (nat \<times> nat) list" where
  "drawn_connections cs =
     concat (map (\<lambda>i. if lightness (cs ! i) > 10 then
                        map (Pair i)
                          (filter (\<lambda>k. k < length cs \<and> lightness (cs ! k) > 10)
                             (connections (cs ! i)))
                      else [])
               [0..<length cs])"

definition connection_line :: "Cell \<Rightarrow> Cell \<Rightarrow> canvas_op list" where
  "connection_line cell target =
     [BeginPath,
      MoveTo (x_c cell + distortionX cell) (y_c cell + distortionY cell),
      LineTo (x_c target + distortionX target) (y_c target + distortionY target),
      Stroke]"

definition drawConnections :: "Cell list \<Rightarrow> canvas_op list" where
  "drawConnections cs =
     [SetStrokeStyle (Rgba 0 255 200 0.2), SetLineWidth 1, SetLineDash [5, 5]]
     @ concat (map (\<lambda>(i, k). connection_line (cs ! i) (cs ! k)) (drawn_connections cs))
     @ [SetLineDash []]"

subsection \<open>One frame and the events\<close>

text \<open>
  \<open>render\<close>: the clock advances by 16, the first loop computes the targets of every
  cell, the second eases and paints every cell, then the connections are painted. The
  log holds the operations that depend on the cells; the background, the reference grid
  and the scan line (lines 232 to 259 and 367 to 374) read the canvas size and the clock
  only and are not part of it.
\<close>

definition render :: "State \<Rightarrow> State \<times> canvas_op list" where
  "render s =
     (let t = time s + 16;
          mx = mouseX s;
          my = mouseY s;
          simulated = map (simulate_cell mx my t) (cells s);
          animated = map animate_cell simulated
      in (s\<lparr>cells := animated, time := t\<rparr>,
          concat (map draw_cell animated) @ drawConnections animated))"

definition resize :: "real \<Rightarrow> real \<Rightarrow> State \<Rightarrow> State" where
  "resize w h s = (let (cs, g) = buildCells w h (rng s) in s\<lparr>cells := cs, rng := g\<rparr>)"

definition onMove :: "real \<Rightarrow> real \<Rightarrow> State \<Rightarrow> State" where
  "onMove ex ey s = s\<lparr>mouseX := ex, mouseY := ey\<rparr>"

definition onLeave :: "State \<Rightarrow> State" where
  "onLeave s = s\<lparr>mouseX := - 9999, mouseY := - 9999\<rparr>"

text \<open>The state when the effect has run: the initial refs, then the first \<open>resize()\<close>.\<close>

definition mount :: "real \<Rightarrow> real \<Rightarrow> rng \<Rightarrow> State" where
  "mount w h g =
     resize w h \<lparr>cells = [], mouseX = - 9999, mouseY = - 9999, time = 0, rng = g\<rparr>"

datatype event = Frame | Move real real | Leave | Resize real real

fun step :: "State \<Rightarrow> event \<Rightarrow> State" where
  "step s Frame = fst (render s)"
| "step s (Move ex ey) = onMove ex ey s"
| "step s Leave = onLeave s"
| "step s (Resize w h) = resize w h s"

definition run :: "State \<Rightarrow> event list \<Rightarrow> State" where
  "run s es = foldl step s es"

fun is_Resize :: "event \<Rightarrow> bool" where
  "is_Resize (Resize w h) = True"
| "is_Resize e = False"

text \<open>
  Cell \<open>i\<close> is outside the influence radius in every frame of the run \<open>es\<close> from \<open>s\<close>.
\<close>

fun never_hovered :: "nat \<Rightarrow> State \<Rightarrow> event list \<Rightarrow> bool" where
  "never_hovered i s [] = True"
| "never_hovered i s (e # es) =
     ((e = Frame \<longrightarrow> \<not> cellDistance (cells s ! i) (mouseX s) (mouseY s) < influenceRadius)
      \<and> never_hovered i (step s e) es)"

subsection \<open>Predicates of the properties\<close>

text \<open>
  \<open>fresh\<close>: the animated fields as the builder sets them. \<open>on_lattice\<close>: a cell as
  the builder places it at row \<open>r\<close> and column \<open>k\<close>, before the connection loop.
  \<open>strip\<close> forgets the connections of a cell. \<open>conn_ok\<close>: every connection of
  the cell at index \<open>i\<close> is an index of the array above \<open>i\<close>.
\<close>

definition fresh :: "Cell \<Rightarrow> bool" where
  "fresh c \<longleftrightarrow>
     lightness c = 0 \<and> targetL c = 0 \<and> distortionX c = 0 \<and> distortionY c = 0
     \<and> targetDistortionX c = 0 \<and> targetDistortionY c = 0
     \<and> \<not> isActivated c \<and> activationTime c = 0 \<and> lastHoverTime c = 0"

definition row_offset :: "int \<Rightarrow> real" where
  "row_offset row = (if row mod 2 = 0 then 0 else hexSpacing / 2)"

definition on_lattice :: "real \<Rightarrow> real \<Rightarrow> int \<Rightarrow> int \<Rightarrow> Cell \<Rightarrow> bool" where
  "on_lattice gx gy r k c \<longleftrightarrow>
     x_c c = gx + real_of_int k * hexSpacing + row_offset r
     \<and> y_c c = gy + real_of_int r * rowHeight
     \<and> fresh c \<and> connections c = []"

definition strip :: "Cell \<Rightarrow> Cell" where
  "strip c = c\<lparr>connections := []\<rparr>"

definition conn_ok :: "Cell list \<Rightarrow> bool" where
  "conn_ok cs \<longleftrightarrow>
     (\<forall>i < length cs. \<forall>j \<in> set (connections (cs ! i)). i < j \<and> j < length cs)"

text \<open>
  \<open>cell_ok t\<close>: the brightness fields are percentages and the last hover is not
  later than the clock \<open>t\<close>. \<open>state_ok\<close>: the clock is not negative and every cell
  is \<open>cell_ok\<close> at it.
\<close>

definition cell_ok :: "real \<Rightarrow> Cell \<Rightarrow> bool" where
  "cell_ok t c \<longleftrightarrow>
     0 \<le> lightness c \<and> lightness c \<le> 100 \<and> 0 \<le> targetL c \<and> targetL c \<le> 100
     \<and> lastHoverTime c \<le> t"

definition state_ok :: "State \<Rightarrow> bool" where
  "state_ok s \<longleftrightarrow> 0 \<le> time s \<and> (\<forall>c \<in> set (cells s). cell_ok (time s) c)"

text \<open>
  \<open>idle\<close>: the pointer is at the sentinel of \<open>onLeave\<close> and every cell is dark, not
  activated, right of the origin and displaced by at most 3 along \<open>x\<close>.
\<close>

fun is_Move :: "event \<Rightarrow> bool" where
  "is_Move (Move ex ey) = True"
| "is_Move e = False"

definition idle_cell :: "Cell \<Rightarrow> bool" where
  "idle_cell c \<longleftrightarrow>
     0 \<le> x_c c \<and> \<bar>distortionX c\<bar> \<le> 3 \<and> \<not> isActivated c \<and> lightness c = 0"

definition idle :: "State \<Rightarrow> bool" where
  "idle s \<longleftrightarrow> mouseX s = - 9999 \<and> mouseY s = - 9999 \<and> (\<forall>c \<in> set (cells s). idle_cell c)"

subsection \<open>A concrete cell and state, for the examples\<close>

definition example_cell :: Cell where
  "example_cell =
     \<lparr> x_c = 0, y_c = 0, size_c = 25, hue = 200, lightness = 50, targetL = 50,
       distortionX = 0, distortionY = 0, targetDistortionX = 0, targetDistortionY = 0,
       noiseOffset = 0, isActivated = True, activationTime = 0, lastHoverTime = 0,
       type_c = Hex, connections = [] \<rparr>"

definition example_state :: "real \<Rightarrow> real \<Rightarrow> State" where
  "example_state mx my =
     \<lparr> cells = [example_cell], mouseX = mx, mouseY = my, time = 0, rng = (\<lambda>n. 0) \<rparr>"

definition example_rng :: rng where
  "example_rng = (\<lambda>n. 3 / 4)"

definition built_cell :: "real \<Rightarrow> real \<Rightarrow> nat list \<Rightarrow> Cell" where
  "built_cell px py js =
     \<lparr> x_c = px, y_c = py, size_c = 20, hue = 310, lightness = 0, targetL = 0,
       distortionX = 0, distortionY = 0, targetDistortionX = 0, targetDistortionY = 0,
       noiseOffset = 3 / 4 * TAU, isActivated = False, activationTime = 0, lastHoverTime = 0,
       type_c = Square, connections = js \<rparr>"

text \<open>The grid of 120 by 100, the pointer moved onto its first cell, one frame.\<close>

definition hover_run :: State where
  "hover_run = run (mount 120 100 example_rng) [Move 12 10, Frame]"

text \<open>
  The same grid after one frame with the pointer away, then the pointer moved onto the
  lattice position of the first cell.
\<close>

definition displaced_run :: State where
  "displaced_run = run (mount 120 100 example_rng) [Frame, Move 12 10]"

section \<open>Properties\<close>

subsection \<open>What one frame does to one cell\<close>

lemma simulate_cell_fixed:
  "x_c (simulate_cell mx my t c) = x_c c"
  "y_c (simulate_cell mx my t c) = y_c c"
  "size_c (simulate_cell mx my t c) = size_c c"
  "hue (simulate_cell mx my t c) = hue c"
  "type_c (simulate_cell mx my t c) = type_c c"
  "noiseOffset (simulate_cell mx my t c) = noiseOffset c"
  "connections (simulate_cell mx my t c) = connections c"
  "lightness (simulate_cell mx my t c) = lightness c"
  "distortionX (simulate_cell mx my t c) = distortionX c"
  "distortionY (simulate_cell mx my t c) = distortionY c"
  by (simp_all add: simulate_cell_def distortion_update_def brightness_update_def
        hover_update_def Let_def)

lemma animate_cell_fixed:
  "x_c (animate_cell c) = x_c c"
  "y_c (animate_cell c) = y_c c"
  "size_c (animate_cell c) = size_c c"
  "hue (animate_cell c) = hue c"
  "type_c (animate_cell c) = type_c c"
  "noiseOffset (animate_cell c) = noiseOffset c"
  "connections (animate_cell c) = connections c"
  "targetL (animate_cell c) = targetL c"
  "isActivated (animate_cell c) = isActivated c"
  "lastHoverTime (animate_cell c) = lastHoverTime c"
  "activationTime (animate_cell c) = activationTime c"
  "lightness (animate_cell c) = lightness c + (targetL c - lightness c) * 0.2"
  by (simp_all add: animate_cell_def)

lemma simulate_cell_targetL:
  "targetL (simulate_cell mx my t c) =
     (let d = cellDistance c mx my in
      if d < influenceRadius then 70 + (1 - d / influenceRadius) * 30
      else if isActivated c \<and> t - lastHoverTime c < fadeOutDuration
        then 65 * (1 - (t - lastHoverTime c) / fadeOutDuration)
      else 0)"
  by (simp add: simulate_cell_def distortion_update_def brightness_update_def
        hover_update_def Let_def)

lemma simulate_cell_isActivated:
  "isActivated (simulate_cell mx my t c) =
     (cellDistance c mx my < influenceRadius \<or>
      (isActivated c \<and> t - lastHoverTime c < fadeOutDuration))"
  by (simp add: simulate_cell_def distortion_update_def brightness_update_def
        hover_update_def Let_def)

lemma simulate_cell_lastHoverTime:
  "lastHoverTime (simulate_cell mx my t c) =
     (if cellDistance c mx my < influenceRadius then t else lastHoverTime c)"
  by (simp add: simulate_cell_def distortion_update_def brightness_update_def
        hover_update_def Let_def)

lemma cells_render:
  "cells (fst (render s)) = map (\<lambda>c. animate_cell (simulate_cell (mouseX s) (mouseY s) (time s + 16) c)) (cells s)"
  by (simp add: render_def Let_def)

lemma render_other:
  "time (fst (render s)) = time s + 16"
  "mouseX (fst (render s)) = mouseX s"
  "mouseY (fst (render s)) = mouseY s"
  "rng (fst (render s)) = rng s"
  by (simp_all add: render_def Let_def)

lemma cellDistance_on_row:
  "y_c c + distortionY c = my \<Longrightarrow> cellDistance c mx my = \<bar>x_c c + distortionX c - mx\<bar>"
  by (simp add: cellDistance_def Let_def)

lemma example_distance: "cellDistance example_cell mx 0 = \<bar>mx\<bar>"
  by (simp add: cellDistance_on_row example_cell_def)

lemma nth_cells_render:
  "i < length (cells s) \<Longrightarrow>
   cells (fst (render s)) ! i =
     animate_cell (simulate_cell (mouseX s) (mouseY s) (time s + 16) (cells s ! i))"
  by (simp add: cells_render)

lemma cellDistance_nonneg: "0 \<le> cellDistance c mx my"
  by (simp add: cellDistance_def Let_def)

lemma cellDistance_at_cell:
  "mx = x_c c + distortionX c \<Longrightarrow> my = y_c c + distortionY c \<Longrightarrow> cellDistance c mx my = 0"
  by (simp add: cellDistance_def Let_def)

lemma example_cell_simps:
  "x_c example_cell = 0" "y_c example_cell = 0" "size_c example_cell = 25"
  "hue example_cell = 200" "lightness example_cell = 50" "targetL example_cell = 50"
  "distortionX example_cell = 0" "distortionY example_cell = 0"
  "noiseOffset example_cell = 0" "isActivated example_cell"
  "lastHoverTime example_cell = 0" "type_c example_cell = Hex"
  "connections example_cell = []"
  by (simp_all add: example_cell_def)

lemma example_state_simps:
  "cells (example_state mx my) = [example_cell]"
  "mouseX (example_state mx my) = mx"
  "mouseY (example_state mx my) = my"
  "time (example_state mx my) = 0"
  by (simp_all add: example_state_def)

lemma example_render:
  "cells (fst (render (example_state mx my))) = [animate_cell (simulate_cell mx my 16 example_cell)]"
  by (simp add: cells_render example_state_simps)

lemma example_render_hovered:
  "targetL (cells (fst (render (example_state 0 0))) ! 0) = 100"
  "lightness (cells (fst (render (example_state 0 0))) ! 0) = 60"
  by (simp_all add: example_render animate_cell_fixed simulate_cell_targetL
        simulate_cell_fixed example_distance influenceRadius_def example_cell_simps Let_def)

subsection \<open>The loops of the builder\<close>

lemma place_cell_cases:
  "fst (place_cell px py st) = fst st
   \<or> (\<exists>c. fst (place_cell px py st) = fst st @ [c] \<and> x_c c = px \<and> y_c c = py
           \<and> fresh c \<and> connections c = [])"
  by (simp add: place_cell_def Let_def fresh_def split: prod.splits)

lemma place_cell_mem:
  assumes "c \<in> set (fst (place_cell px py st))"
  shows "c \<in> set (fst st) \<or> (x_c c = px \<and> y_c c = py \<and> fresh c \<and> connections c = [])"
  using assms place_cell_cases [of px py st] by auto

lemma col_loop_step:
  "col < cols \<Longrightarrow>
   col_loop gx gy cols row col st
     = col_loop gx gy cols row (col + 1)
         (place_cell (gx + real_of_int col * hexSpacing + row_offset row)
            (gy + real_of_int row * rowHeight) st)"
  by (subst col_loop.simps) (simp add: Let_def row_offset_def)

lemma col_loop_stop: "\<not> col < cols \<Longrightarrow> col_loop gx gy cols row col st = st"
  by (subst col_loop.simps) simp

lemma row_loop_step:
  "row < rows \<Longrightarrow>
   row_loop gx gy cols rows row st
     = row_loop gx gy cols rows (row + 1) (col_loop gx gy cols row 0 st)"
  by (subst row_loop.simps) simp

lemma row_loop_stop: "\<not> row < rows \<Longrightarrow> row_loop gx gy cols rows row st = st"
  by (subst row_loop.simps) simp

lemma col_loop_mem:
  assumes "c \<in> set (fst (col_loop gx gy cols row col st))"
  shows "c \<in> set (fst st) \<or> (\<exists>k. col \<le> k \<and> k < cols \<and> on_lattice gx gy row k c)"
  using assms
proof (induction gx gy cols row col st rule: col_loop.induct)
  case (1 gx gy cols row col st)
  show ?case
  proof (cases "col < cols")
    case False
    with "1.prems" show ?thesis
      by (simp add: col_loop_stop)
  next
    case True
    define px where "px = gx + real_of_int col * hexSpacing + row_offset row"
    define py where "py = gy + real_of_int row * rowHeight"
    have mem: "c \<in> set (fst (col_loop gx gy cols row (col + 1) (place_cell px py st)))"
      using "1.prems" True by (simp add: col_loop_step px_def py_def)
    have "c \<in> set (fst (place_cell px py st))
          \<or> (\<exists>k. col + 1 \<le> k \<and> k < cols \<and> on_lattice gx gy row k c)"
      using "1.IH" [OF True refl refl refl] mem
      by (simp add: px_def py_def row_offset_def)
    then show ?thesis
    proof
      assume "c \<in> set (fst (place_cell px py st))"
      from place_cell_mem [OF this]
      have "c \<in> set (fst st) \<or> on_lattice gx gy row col c"
        by (simp add: on_lattice_def px_def py_def)
      with True show ?thesis by blast
    next
      assume "\<exists>k. col + 1 \<le> k \<and> k < cols \<and> on_lattice gx gy row k c"
      then obtain k where "col + 1 \<le> k" "k < cols" "on_lattice gx gy row k c"
        by blast
      then have "col \<le> k \<and> k < cols \<and> on_lattice gx gy row k c"
        by simp
      then show ?thesis by blast
    qed
  qed
qed

lemma row_loop_mem:
  assumes "c \<in> set (fst (row_loop gx gy cols rows row st))"
  shows "c \<in> set (fst st)
         \<or> (\<exists>r k. row \<le> r \<and> r < rows \<and> 0 \<le> k \<and> k < cols \<and> on_lattice gx gy r k c)"
  using assms
proof (induction gx gy cols rows row st rule: row_loop.induct)
  case (1 gx gy cols rows row st)
  show ?case
  proof (cases "row < rows")
    case False
    with "1.prems" show ?thesis
      by (simp add: row_loop_stop)
  next
    case True
    have mem: "c \<in> set (fst (row_loop gx gy cols rows (row + 1) (col_loop gx gy cols row 0 st)))"
      using "1.prems" True by (simp add: row_loop_step)
    have "c \<in> set (fst (col_loop gx gy cols row 0 st))
          \<or> (\<exists>r k. row + 1 \<le> r \<and> r < rows \<and> 0 \<le> k \<and> k < cols \<and> on_lattice gx gy r k c)"
      using "1.IH" [OF True] mem by simp
    then show ?thesis
    proof
      assume "c \<in> set (fst (col_loop gx gy cols row 0 st))"
      from col_loop_mem [OF this]
      have "c \<in> set (fst st) \<or> (\<exists>k. 0 \<le> k \<and> k < cols \<and> on_lattice gx gy row k c)" .
      with True show ?thesis by blast
    next
      assume "\<exists>r k. row + 1 \<le> r \<and> r < rows \<and> 0 \<le> k \<and> k < cols \<and> on_lattice gx gy r k c"
      then obtain r k where "row + 1 \<le> r" "r < rows" "0 \<le> k" "k < cols" "on_lattice gx gy r k c"
        by blast
      then have "row \<le> r \<and> r < rows \<and> 0 \<le> k \<and> k < cols \<and> on_lattice gx gy r k c"
        by simp
      then show ?thesis by blast
    qed
  qed
qed


lemma inner_loop_step:
  "j < length (fst st) \<Longrightarrow> inner_loop i j st = inner_loop i (j + 1) (connect_pair i j st)"
  by (subst inner_loop.simps) simp

lemma inner_loop_stop: "\<not> j < length (fst st) \<Longrightarrow> inner_loop i j st = st"
  by (subst inner_loop.simps) simp

lemma outer_loop_step:
  "i < length (fst st) \<Longrightarrow> outer_loop i st = outer_loop (i + 1) (inner_loop i (i + 1) st)"
  by (subst outer_loop.simps) simp

lemma outer_loop_stop: "\<not> i < length (fst st) \<Longrightarrow> outer_loop i st = st"
  by (subst outer_loop.simps) simp

lemma connect_pair_cases:
  "fst (connect_pair i j st) = fst st
   \<or> fst (connect_pair i j st)
       = (fst st)[i := (fst st ! i)\<lparr>connections := connections (fst st ! i) @ [j]\<rparr>]"
  by (simp add: connect_pair_def Let_def split: prod.splits)

lemma strip_update: "strip (c\<lparr>connections := js\<rparr>) = strip c"
  by (simp add: strip_def)

lemma map_strip_update:
  "map strip (cs[i := (cs ! i)\<lparr>connections := js\<rparr>]) = map strip cs"
proof (cases "i < length cs")
  case True
  have "map strip (cs[i := (cs ! i)\<lparr>connections := js\<rparr>])
        = (map strip cs)[i := strip ((cs ! i)\<lparr>connections := js\<rparr>)]"
    by (rule map_update)
  also have "\<dots> = (map strip cs)[i := map strip cs ! i]"
    using True by (simp only: strip_update nth_map)
  also have "\<dots> = map strip cs"
    by (rule list_update_id)
  finally show ?thesis .
next
  case False
  then have "length cs \<le> i" by simp
  then have "cs[i := (cs ! i)\<lparr>connections := js\<rparr>] = cs"
    by (rule list_update_beyond)
  then show ?thesis by (simp only:)
qed

lemma connect_pair_strip: "map strip (fst (connect_pair i j st)) = map strip (fst st)"
proof -
  from connect_pair_cases [of i j st] show ?thesis
  proof
    assume "fst (connect_pair i j st) = fst st"
    then show ?thesis by (simp only:)
  next
    assume "fst (connect_pair i j st)
       = (fst st)[i := (fst st ! i)\<lparr>connections := connections (fst st ! i) @ [j]\<rparr>]"
    then show ?thesis by (simp only: map_strip_update)
  qed
qed

lemma inner_loop_strip: "map strip (fst (inner_loop i j st)) = map strip (fst st)"
proof (induction i j st rule: inner_loop.induct)
  case (1 i j st)
  show ?case
  proof (cases "j < length (fst st)")
    case True
    with "1.IH" show ?thesis
      by (simp add: inner_loop_step connect_pair_strip)
  next
    case False
    then show ?thesis by (simp add: inner_loop_stop)
  qed
qed

lemma outer_loop_strip: "map strip (fst (outer_loop i st)) = map strip (fst st)"
proof (induction i st rule: outer_loop.induct)
  case (1 i st)
  show ?case
  proof (cases "i < length (fst st)")
    case True
    with "1.IH" show ?thesis
      by (simp add: outer_loop_step inner_loop_strip)
  next
    case False
    then show ?thesis by (simp add: outer_loop_stop)
  qed
qed

lemma strip_length: "map strip cs' = map strip cs \<Longrightarrow> length cs' = length cs"
  by (rule map_eq_imp_length_eq)

lemma strip_nth:
  "map strip cs' = map strip cs \<Longrightarrow> i < length cs \<Longrightarrow> strip (cs' ! i) = strip (cs ! i)"
proof -
  assume eq: "map strip cs' = map strip cs" and i: "i < length cs"
  from eq have "length cs' = length cs" by (rule map_eq_imp_length_eq)
  with i have "map strip cs' ! i = strip (cs' ! i)" by simp
  moreover from i have "map strip cs ! i = strip (cs ! i)" by simp
  ultimately show ?thesis using eq by simp
qed

lemma conn_ok_update:
  assumes "i < j" and "j < length cs" and "conn_ok cs"
  shows "conn_ok (cs[i := (cs ! i)\<lparr>connections := connections (cs ! i) @ [j]\<rparr>])"
proof -
  define c' where "c' = (cs ! i)\<lparr>connections := connections (cs ! i) @ [j]\<rparr>"
  have old: "a < b \<and> b < length cs" if "a < length cs" "b \<in> set (connections (cs ! a))" for a b
    using assms(3) that unfolding conn_ok_def by blast
  have "a < b \<and> b < length (cs[i := c'])"
    if a: "a < length (cs[i := c'])" and b: "b \<in> set (connections (cs[i := c'] ! a))" for a b
  proof (cases "a = i")
    case True
    from a have ai: "i < length cs" using True by simp
    then have "cs[i := c'] ! a = c'" using True by simp
    with b have "b \<in> set (connections (cs ! i)) \<or> b = j"
      by (simp add: c'_def) blast
    then show ?thesis
    proof
      assume "b \<in> set (connections (cs ! i))"
      from old [OF ai this] True show ?thesis by simp
    next
      assume "b = j"
      with assms True show ?thesis by simp
    qed
  next
    case False
    from a have al: "a < length cs" by simp
    from False have "cs[i := c'] ! a = cs ! a" by simp
    with b have "b \<in> set (connections (cs ! a))" by simp
    from old [OF al this] show ?thesis by simp
  qed
  then show ?thesis
    unfolding conn_ok_def c'_def by blast
qed

lemma connect_pair_conn_ok:
  assumes "i < j" and "j < length (fst st)" and "conn_ok (fst st)"
  shows "conn_ok (fst (connect_pair i j st))"
proof -
  from connect_pair_cases [of i j st] show ?thesis
  proof
    assume "fst (connect_pair i j st) = fst st"
    with assms(3) show ?thesis by (simp only:)
  next
    assume "fst (connect_pair i j st)
       = (fst st)[i := (fst st ! i)\<lparr>connections := connections (fst st ! i) @ [j]\<rparr>]"
    with conn_ok_update [OF assms] show ?thesis by (simp only:)
  qed
qed

lemma inner_loop_conn_ok:
  "i < j \<Longrightarrow> conn_ok (fst st) \<Longrightarrow> conn_ok (fst (inner_loop i j st))"
proof (induction i j st rule: inner_loop.induct)
  case (1 i j st)
  show ?case
  proof (cases "j < length (fst st)")
    case True
    have "conn_ok (fst (connect_pair i j st))"
      using "1.prems" True by (simp add: connect_pair_conn_ok)
    with "1.IH" [OF True] "1.prems" True show ?thesis
      by (simp add: inner_loop_step)
  next
    case False
    with "1.prems" show ?thesis by (simp add: inner_loop_stop)
  qed
qed

lemma outer_loop_conn_ok:
  "conn_ok (fst st) \<Longrightarrow> conn_ok (fst (outer_loop i st))"
proof (induction i st rule: outer_loop.induct)
  case (1 i st)
  show ?case
  proof (cases "i < length (fst st)")
    case True
    have "conn_ok (fst (inner_loop i (i + 1) st))"
      using "1.prems" by (simp add: inner_loop_conn_ok)
    with "1.IH" [OF True] True show ?thesis
      by (simp add: outer_loop_step)
  next
    case False
    with "1.prems" show ?thesis by (simp add: outer_loop_stop)
  qed
qed

lemma row_loop_no_connections:
  assumes "c \<in> set (fst (row_loop gx gy cols rows 0 ([], g)))"
  shows "connections c = []"
proof -
  from row_loop_mem [OF assms]
  obtain r k where "on_lattice gx gy r k c" by auto
  then show ?thesis by (simp add: on_lattice_def)
qed

lemma row_loop_conn_ok: "conn_ok (fst (row_loop gx gy cols rows 0 ([], g)))"
  unfolding conn_ok_def
proof (intro allI impI ballI)
  fix i j
  assume "i < length (fst (row_loop gx gy cols rows 0 ([], g)))"
    and j: "j \<in> set (connections (fst (row_loop gx gy cols rows 0 ([], g)) ! i))"
  then have "fst (row_loop gx gy cols rows 0 ([], g)) ! i
             \<in> set (fst (row_loop gx gy cols rows 0 ([], g)))"
    by simp
  then have "connections (fst (row_loop gx gy cols rows 0 ([], g)) ! i) = []"
    by (rule row_loop_no_connections)
  with j show "i < j \<and> j < length (fst (row_loop gx gy cols rows 0 ([], g)))"
    by simp
qed

lemma buildCells_conn_ok: "conn_ok (fst (buildCells w h g))"
  by (simp add: buildCells_def Let_def outer_loop_conn_ok row_loop_conn_ok)

lemma strip_fields:
  assumes "strip c = strip c0"
  shows "x_c c = x_c c0" "y_c c = y_c c0" "fresh c = fresh c0"
proof -
  have f: "x_c (strip a) = x_c a" "y_c (strip a) = y_c a" "fresh (strip a) = fresh a" for a
    by (simp_all add: strip_def fresh_def)
  from assms f [of c] f [of c0] show "x_c c = x_c c0" "y_c c = y_c c0" "fresh c = fresh c0"
    by simp_all
qed

lemma buildCells_mem:
  assumes "c \<in> set (fst (buildCells w h g))"
  shows "\<exists>r k. 0 \<le> r \<and> r < \<lfloor>h * 0.5 / rowHeight\<rfloor> \<and> 0 \<le> k \<and> k < \<lfloor>w * 0.8 / hexSpacing\<rfloor>
           \<and> x_c c = w * 0.1 + real_of_int k * hexSpacing + row_offset r
           \<and> y_c c = h * 0.1 + real_of_int r * rowHeight
           \<and> fresh c"
proof -
  define cols where "cols = \<lfloor>w * 0.8 / hexSpacing\<rfloor>"
  define rows where "rows = \<lfloor>h * 0.5 / rowHeight\<rfloor>"
  define st where "st = row_loop (w * 0.1) (h * 0.1) cols rows 0 ([], g)"
  have b: "buildCells w h g = outer_loop 0 st"
    by (simp add: buildCells_def Let_def st_def cols_def rows_def)
  have eq: "map strip (fst (buildCells w h g)) = map strip (fst st)"
    by (simp only: b outer_loop_strip)
  from assms obtain i where i: "i < length (fst (buildCells w h g))"
    and c: "c = fst (buildCells w h g) ! i"
    by (auto simp: in_set_conv_nth)
  have len: "length (fst (buildCells w h g)) = length (fst st)"
    using eq by (rule strip_length)
  with i have i': "i < length (fst st)" by simp
  define c0 where "c0 = fst st ! i"
  have s: "strip c = strip c0"
    unfolding c c0_def using eq i' by (rule strip_nth)
  have "c0 \<in> set (fst st)"
    using i' by (simp add: c0_def)
  then have "c0 \<in> set (fst ([] :: Cell list, g))
         \<or> (\<exists>r k. 0 \<le> r \<and> r < rows \<and> 0 \<le> k \<and> k < cols \<and> on_lattice (w * 0.1) (h * 0.1) r k c0)"
    unfolding st_def by (rule row_loop_mem)
  then obtain r k where rk: "0 \<le> r" "r < rows" "0 \<le> k" "k < cols"
      and l: "on_lattice (w * 0.1) (h * 0.1) r k c0"
    by auto
  from l strip_fields [OF s]
  have "x_c c = w * 0.1 + real_of_int k * hexSpacing + row_offset r
           \<and> y_c c = h * 0.1 + real_of_int r * rowHeight \<and> fresh c"
    by (simp add: on_lattice_def)
  with rk show ?thesis
    unfolding cols_def rows_def by blast
qed

lemma rowHeight_pos: "0 < rowHeight"
  by (simp add: rowHeight_def hexRadius_def)

lemma hexSpacing_eq: "hexSpacing = 45"
  by (simp add: hexSpacing_def hexRadius_def)

lemma row_offset_bounds: "0 \<le> row_offset r" "row_offset r \<le> hexSpacing / 2"
  by (simp_all add: row_offset_def hexSpacing_eq)

lemma below_floor:
  fixes a d :: real
  assumes "0 < d" and "0 \<le> k" and "k < \<lfloor>a / d\<rfloor>"
  shows "0 \<le> real_of_int k * d" and "real_of_int k * d + d \<le> a"
proof -
  from assms show "0 \<le> real_of_int k * d" by simp
  from assms(3) have "k + 1 \<le> \<lfloor>a / d\<rfloor>" by simp
  then have "real_of_int (k + 1) \<le> a / d" by (simp only: le_floor_iff)
  with assms(1) have "real_of_int (k + 1) * d \<le> a" by (simp add: pos_le_divide_eq)
  then show "real_of_int k * d + d \<le> a" by (simp add: algebra_simps)
qed

subsection \<open>A build evaluated\<close>

text \<open>
  The viewport 120 by 100 has one row of two lattice points. With every random draw
  equal to 3/4 both points get a cell and the two cells are connected.
\<close>

lemma random_example: "random example_rng = (3 / 4, example_rng)"
  by (simp add: random_def example_rng_def)

lemma place_cell_example:
  "place_cell px py (cs, example_rng) = (cs @ [built_cell px py []], example_rng)"
  by (simp add: place_cell_def random_example built_cell_def hexRadius_def)

lemma sqrt3_bounds: "1 < sqrt 3" "sqrt 3 < 2"
proof -
  show "1 < sqrt 3"
    by (rule real_less_rsqrt) simp
  show "sqrt 3 < 2"
    by (rule real_less_lsqrt) simp_all
qed

lemma example_rows: "\<lfloor>50 / rowHeight\<rfloor> = 1"
proof -
  have "50 / rowHeight = 2 / sqrt 3"
    by (simp add: rowHeight_def hexRadius_def)
  moreover have "1 \<le> 2 / sqrt 3" "2 / sqrt 3 < 2"
    using sqrt3_bounds by (simp_all add: field_simps)
  ultimately show ?thesis by (simp add: floor_eq_iff)
qed

lemma example_cols: "\<lfloor>96 / hexSpacing\<rfloor> = 2"
  by (simp add: hexSpacing_eq)

lemma example_row_loop:
  "row_loop 12 10 2 1 0 ([], example_rng)
     = ([built_cell 12 10 [], built_cell 57 10 []], example_rng)"
  by (simp add: row_loop_step row_loop_stop col_loop_step col_loop_stop place_cell_example
        row_offset_def hexSpacing_eq)

lemma example_connect:
  "connect_pair 0 1 ([built_cell 12 10 [], built_cell 57 10 []], example_rng)
     = ([built_cell 12 10 [1], built_cell 57 10 []], example_rng)"
  by (simp add: connect_pair_def random_example built_cell_def hexSpacing_eq)

lemma example_outer_loop:
  "outer_loop 0 ([built_cell 12 10 [], built_cell 57 10 []], example_rng)
     = ([built_cell 12 10 [1], built_cell 57 10 []], example_rng)"
proof -
  define st0 where "st0 = ([built_cell 12 10 [], built_cell 57 10 []], example_rng)"
  define st1 where "st1 = ([built_cell 12 10 [1], built_cell 57 10 []], example_rng)"
  have len: "length (fst st0) = 2" "length (fst st1) = 2"
    by (simp_all add: st0_def st1_def)
  have c: "connect_pair 0 1 st0 = st1"
    unfolding st0_def st1_def by (rule example_connect)
  have "inner_loop 0 1 st0 = inner_loop 0 (1 + 1) (connect_pair 0 1 st0)"
    by (rule inner_loop_step) (simp add: len)
  also have "\<dots> = st1"
    unfolding c by (rule inner_loop_stop) (simp add: len)
  finally have i0: "inner_loop 0 (0 + 1) st0 = st1" by simp
  have i1: "inner_loop 1 (1 + 1) st1 = st1"
    by (rule inner_loop_stop) (simp add: len)
  have "outer_loop 0 st0 = outer_loop (0 + 1) (inner_loop 0 (0 + 1) st0)"
    by (rule outer_loop_step) (simp add: len)
  also have "\<dots> = outer_loop 1 st1"
    unfolding i0 by simp
  also have "\<dots> = outer_loop (1 + 1) (inner_loop 1 (1 + 1) st1)"
    by (rule outer_loop_step) (simp add: len)
  also have "\<dots> = st1"
    unfolding i1 by (rule outer_loop_stop) (simp add: len)
  finally show ?thesis
    unfolding st0_def st1_def .
qed

lemma example_build:
  "buildCells 120 100 example_rng = ([built_cell 12 10 [1], built_cell 57 10 []], example_rng)"
  by (simp add: buildCells_def example_rows example_cols example_row_loop example_outer_loop)

lemma example_build_cells:
  "fst (buildCells 120 100 example_rng) = [built_cell 12 10 [1], built_cell 57 10 []]"
  by (simp add: example_build)

lemma built_cell_simps:
  "x_c (built_cell px py js) = px" "y_c (built_cell px py js) = py"
  "lightness (built_cell px py js) = 0" "targetL (built_cell px py js) = 0"
  "distortionX (built_cell px py js) = 0" "distortionY (built_cell px py js) = 0"
  "isActivated (built_cell px py js) = False" "lastHoverTime (built_cell px py js) = 0"
  "noiseOffset (built_cell px py js) = 3 / 4 * TAU"
  "connections (built_cell px py js) = js"
  by (simp_all add: built_cell_def)

subsection \<open>Runs\<close>

lemma run_Nil: "run s [] = s"
  by (simp add: run_def)

lemma run_Cons: "run s (e # es) = run (step s e) es"
  by (simp add: run_def)

lemma step_connections:
  assumes "\<not> is_Resize e"
  shows "map connections (cells (step s e)) = map connections (cells s)"
proof (cases e)
  case Frame
  have "connections (animate_cell (simulate_cell mx my t c)) = connections c" for mx my t c
    by (simp add: animate_cell_fixed simulate_cell_fixed)
  with Frame show ?thesis
    by (simp add: cells_render)
next
  case (Move ex ey)
  then show ?thesis by (simp add: onMove_def)
next
  case Leave
  then show ?thesis by (simp add: onLeave_def)
next
  case (Resize w h)
  with assms show ?thesis by simp
qed

lemma run_connections:
  "\<forall>e \<in> set es. \<not> is_Resize e \<Longrightarrow>
   map connections (cells (run s es)) = map connections (cells s)"
proof (induction es arbitrary: s)
  case Nil
  show ?case by (simp add: run_Nil)
next
  case (Cons e es)
  from Cons.prems have e: "\<not> is_Resize e" and es: "\<forall>e \<in> set es. \<not> is_Resize e"
    by simp_all
  have "map connections (cells (run (step s e) es)) = map connections (cells (step s e))"
    using es by (rule Cons.IH)
  with step_connections [OF e, of s] show ?case
    by (simp add: run_Cons)
qed

subsection \<open>The empty grid\<close>

lemma row_loop_no_cols:
  "cols \<le> 0 \<Longrightarrow> row_loop gx gy cols rows row st = st"
proof (induction gx gy cols rows row st rule: row_loop.induct)
  case (1 gx gy cols rows row st)
  show ?case
  proof (cases "row < rows")
    case True
    from "1.prems" have c: "col_loop gx gy cols row 0 st = st"
      by (simp add: col_loop_stop)
    from "1.IH" [OF True "1.prems"] True show ?thesis
      by (simp add: row_loop_step c)
  next
    case False
    then show ?thesis by (simp add: row_loop_stop)
  qed
qed

lemma buildCells_empty:
  assumes "w = 0 \<or> h = 0"
  shows "buildCells w h g = ([], g)"
proof -
  have o: "outer_loop 0 ([], g) = ([], g)"
    by (simp add: outer_loop_stop)
  from assms show ?thesis
  proof
    assume "w = 0"
    then show ?thesis
      by (simp add: buildCells_def Let_def row_loop_no_cols o)
  next
    assume "h = 0"
    then show ?thesis
      by (simp add: buildCells_def Let_def row_loop_stop o)
  qed
qed

lemma drawConnections_Nil:
  "drawn_connections [] = []"
  "drawConnections [] =
     [SetStrokeStyle (Rgba 0 255 200 0.2), SetLineWidth 1, SetLineDash [5, 5], SetLineDash []]"
  by (simp_all add: drawConnections_def drawn_connections_def)

lemma render_Nil:
  assumes "cells s = []"
  shows "cells (fst (render s)) = []"
    and "snd (render s) = drawConnections []"
  using assms by (simp_all add: render_def Let_def)

subsection \<open>The brightness invariant\<close>

lemma fresh_cell_ok: "fresh c \<Longrightarrow> 0 \<le> t \<Longrightarrow> cell_ok t c"
  by (simp add: fresh_def cell_ok_def)

lemma simulate_cell_targetL_range:
  assumes "lastHoverTime c \<le> t"
  shows "0 \<le> targetL (simulate_cell mx my (t + 16) c)"
    and "targetL (simulate_cell mx my (t + 16) c) \<le> 100"
proof -
  define d where "d = cellDistance c mx my"
  define since where "since = t + 16 - lastHoverTime c"
  have d0: "0 \<le> d" by (simp add: d_def cellDistance_nonneg)
  have s0: "0 \<le> since" using assms by (simp add: since_def)
  have T: "targetL (simulate_cell mx my (t + 16) c) =
             (if d < 80 then 70 + (1 - d / 80) * 30
              else if isActivated c \<and> since < 2000 then 65 * (1 - since / 2000)
              else 0)"
    by (simp add: simulate_cell_targetL Let_def d_def since_def influenceRadius_def
          fadeOutDuration_def)
  have hov: "0 \<le> 70 + (1 - d / 80) * 30 \<and> 70 + (1 - d / 80) * 30 \<le> 100" if "d < 80"
    using d0 that by simp
  have fade: "0 \<le> 65 * (1 - since / 2000) \<and> 65 * (1 - since / 2000) \<le> 100" if "since < 2000"
    using s0 that by simp
  from hov fade show "0 \<le> targetL (simulate_cell mx my (t + 16) c)"
    unfolding T by simp
  from hov fade show "targetL (simulate_cell mx my (t + 16) c) \<le> 100"
    unfolding T by simp
qed

lemma ease_range:
  fixes l T :: real
  assumes "0 \<le> l" "l \<le> 100" "0 \<le> T" "T \<le> 100"
  shows "0 \<le> l + (T - l) * 0.2" and "l + (T - l) * 0.2 \<le> 100"
  using assms by argo+

lemma frame_cell_ok:
  assumes "cell_ok t c"
  shows "cell_ok (t + 16) (animate_cell (simulate_cell mx my (t + 16) c))"
proof -
  from assms have l: "0 \<le> lightness c" "lightness c \<le> 100" and h: "lastHoverTime c \<le> t"
    by (simp_all add: cell_ok_def)
  note T = simulate_cell_targetL_range [OF h, of mx my]
  note e = ease_range [OF l T]
  have "lastHoverTime (simulate_cell mx my (t + 16) c) \<le> t + 16"
    using h by (simp add: simulate_cell_lastHoverTime)
  with T e show ?thesis
    by (simp add: cell_ok_def animate_cell_fixed simulate_cell_fixed)
qed

lemma buildCells_fresh: "c \<in> set (fst (buildCells w h g)) \<Longrightarrow> fresh c"
  using buildCells_mem [of c w h g] by blast

lemma resize_simps:
  "cells (resize w h s) = fst (buildCells w h (rng s))"
  "time (resize w h s) = time s"
  "mouseX (resize w h s) = mouseX s"
  "mouseY (resize w h s) = mouseY s"
  by (simp_all add: resize_def split: prod.splits)

lemma resize_state_ok: "0 \<le> time s \<Longrightarrow> state_ok (resize w h s)"
  by (simp add: state_ok_def resize_simps buildCells_fresh fresh_cell_ok)

lemma render_state_ok:
  assumes "state_ok s"
  shows "state_ok (fst (render s))"
proof -
  from assms have t: "0 \<le> time s" and c: "\<And>c. c \<in> set (cells s) \<Longrightarrow> cell_ok (time s) c"
    by (simp_all add: state_ok_def)
  have "cell_ok (time s + 16) c'" if "c' \<in> set (cells (fst (render s)))" for c'
  proof -
    from that obtain c where "c \<in> set (cells s)"
      and "c' = animate_cell (simulate_cell (mouseX s) (mouseY s) (time s + 16) c)"
      by (auto simp: cells_render)
    with c [of c] show ?thesis
      by (simp add: frame_cell_ok)
  qed
  with t show ?thesis
    by (simp add: state_ok_def render_other)
qed

lemma step_state_ok:
  assumes "state_ok s"
  shows "state_ok (step s e)"
proof (cases e)
  case Frame
  with assms show ?thesis by (simp add: render_state_ok)
next
  case (Move ex ey)
  with assms show ?thesis by (simp add: onMove_def state_ok_def)
next
  case Leave
  with assms show ?thesis by (simp add: onLeave_def state_ok_def)
next
  case (Resize w h)
  from assms have "0 \<le> time s" by (simp add: state_ok_def)
  with Resize show ?thesis by (simp add: resize_state_ok)
qed

lemma mount_state_ok: "state_ok (mount w h g)"
  unfolding mount_def by (rule resize_state_ok) simp

lemma run_state_ok: "state_ok s \<Longrightarrow> state_ok (run s es)"
proof (induction es arbitrary: s)
  case Nil
  then show ?case by (simp add: run_Nil)
next
  case (Cons e es)
  from Cons.prems have "state_ok (step s e)"
    by (rule step_state_ok)
  then have "state_ok (run (step s e) es)"
    by (rule Cons.IH)
  then show ?case by (simp add: run_Cons)
qed

lemma mount_example:
  "cells (mount 120 100 example_rng) = [built_cell 12 10 [1], built_cell 57 10 []]"
  "time (mount 120 100 example_rng) = 0"
  "mouseX (mount 120 100 example_rng) = - 9999"
  "mouseY (mount 120 100 example_rng) = - 9999"
  by (simp_all add: mount_def resize_simps example_build_cells)

lemma hover_run_cell:
  "cells hover_run ! 0 = animate_cell (simulate_cell 12 10 16 (built_cell 12 10 [1]))"
  by (simp add: hover_run_def run_def onMove_def cells_render mount_example)

lemma hover_run_values:
  "targetL (cells hover_run ! 0) = 100"
  "lightness (cells hover_run ! 0) = 20"
  by (simp_all add: hover_run_cell animate_cell_fixed simulate_cell_fixed simulate_cell_targetL
        cellDistance_at_cell built_cell_simps influenceRadius_def)

subsection \<open>Cells the pointer does not reach\<close>

lemma cellDistance_ge_x: "\<bar>x_c c + distortionX c - mx\<bar> \<le> cellDistance c mx my"
proof -
  have "cellDistance c mx my
        = sqrt ((x_c c + distortionX c - mx)\<^sup>2 + (y_c c + distortionY c - my)\<^sup>2)"
    by (simp add: cellDistance_def Let_def power2_eq_square)
  then show ?thesis by simp
qed

lemma cellDistance_le_sum:
  "cellDistance c mx my \<le> \<bar>x_c c + distortionX c - mx\<bar> + \<bar>y_c c + distortionY c - my\<bar>"
proof -
  have "cellDistance c mx my
        = sqrt ((x_c c + distortionX c - mx)\<^sup>2 + (y_c c + distortionY c - my)\<^sup>2)"
    by (simp add: cellDistance_def Let_def power2_eq_square)
  then show ?thesis by (simp add: sqrt_sum_squares_le_sum_abs)
qed

lemma simulate_cell_far:
  assumes "\<not> cellDistance c mx my < 120"
  shows "targetDistortionX (simulate_cell mx my t c) = noise (x_c c) (y_c c) (t + noiseOffset c) * 3"
    and "targetDistortionY (simulate_cell mx my t c)
           = noise (y_c c) (x_c c) (t + noiseOffset c + 100) * 3"
  using assms
  by (simp_all add: simulate_cell_def distortion_update_def brightness_update_def
        hover_update_def Let_def influenceRadius_def)

lemma animate_cell_distortion:
  "distortionX (animate_cell c) = distortionX c + (targetDistortionX c - distortionX c) * 0.1"
  "distortionY (animate_cell c) = distortionY c + (targetDistortionY c - distortionY c) * 0.1"
  by (simp_all add: animate_cell_def)

lemma noise_bound: "\<bar>noise px py t\<bar> \<le> 0.99"
proof -
  define a where "a = sin (px * 0.01 + t * 0.002)"
  define b where "b = sin (py * 0.015 + t * 0.003)"
  define c where "c = sin ((px + py) * 0.008 + t * 0.001)"
  have "\<bar>a\<bar> \<le> 1" "\<bar>b\<bar> \<le> 1" "\<bar>c\<bar> \<le> 1"
    by (simp_all add: a_def b_def c_def)
  then have "\<bar>(a + b + c) * 0.33\<bar> \<le> 0.99"
    by (simp add: abs_le_iff)
  then show ?thesis
    by (simp only: noise_def a_def b_def c_def)
qed

lemma unhovered_frame:
  assumes "\<not> isActivated c" and "\<not> cellDistance c mx my < influenceRadius"
  shows "\<not> isActivated (animate_cell (simulate_cell mx my t c))"
    and "targetL (animate_cell (simulate_cell mx my t c)) = 0"
    and "lightness (animate_cell (simulate_cell mx my t c)) = lightness c * (4 / 5)"
  using assms
  by (simp_all add: animate_cell_fixed simulate_cell_fixed simulate_cell_isActivated
        simulate_cell_targetL Let_def)

lemma idle_frame_cell:
  assumes "idle_cell c"
  shows "idle_cell (animate_cell (simulate_cell (- 9999) (- 9999) t c))"
proof -
  from assms have x: "0 \<le> x_c c" and dx: "\<bar>distortionX c\<bar> \<le> 3"
    and a: "\<not> isActivated c" and l: "lightness c = 0"
    by (simp_all add: idle_cell_def)
  have "9996 \<le> \<bar>x_c c + distortionX c - (- 9999)\<bar>"
    using x dx by simp
  also have "\<dots> \<le> cellDistance c (- 9999) (- 9999)"
    by (rule cellDistance_ge_x)
  finally have far: "9996 \<le> cellDistance c (- 9999) (- 9999)" .
  then have n120: "\<not> cellDistance c (- 9999) (- 9999) < 120"
    and n80: "\<not> cellDistance c (- 9999) (- 9999) < influenceRadius"
    by (simp_all add: influenceRadius_def)
  define tx where "tx = noise (x_c c) (y_c c) (t + noiseOffset c)"
  have tb: "\<bar>tx\<bar> \<le> 0.99"
    unfolding tx_def by (rule noise_bound)
  have "distortionX (animate_cell (simulate_cell (- 9999) (- 9999) t c))
        = distortionX c + (tx * 3 - distortionX c) * 0.1"
    by (simp add: animate_cell_distortion simulate_cell_far [OF n120] simulate_cell_fixed tx_def)
  moreover have "\<bar>distortionX c + (tx * 3 - distortionX c) * 0.1\<bar> \<le> 3"
  proof -
    from dx tb have "- 3 \<le> distortionX c" "distortionX c \<le> 3" "- 1 \<le> tx" "tx \<le> 1"
      by simp_all
    then have "- 3 \<le> distortionX c + (tx * 3 - distortionX c) * 0.1"
      "distortionX c + (tx * 3 - distortionX c) * 0.1 \<le> 3"
      by argo+
    then show ?thesis by simp
  qed
  ultimately have "\<bar>distortionX (animate_cell (simulate_cell (- 9999) (- 9999) t c))\<bar> \<le> 3"
    by simp
  with x l unhovered_frame [OF a n80, of t] show ?thesis
    by (simp add: idle_cell_def animate_cell_fixed simulate_cell_fixed)
qed

lemma buildCells_x_nonneg:
  assumes "c \<in> set (fst (buildCells w h g))"
  shows "0 \<le> x_c c"
proof -
  from buildCells_mem [OF assms] obtain r k
    where k: "0 \<le> k" "k < \<lfloor>w * 0.8 / hexSpacing\<rfloor>"
      and x: "x_c c = w * 0.1 + real_of_int k * hexSpacing + row_offset r"
    by blast
  have sp: "0 < hexSpacing" by (simp add: hexSpacing_eq)
  note kx = below_floor [OF sp k]
  from kx sp have "0 \<le> w" by simp
  with kx row_offset_bounds(1) [of r] show ?thesis
    unfolding x by simp
qed

lemma buildCells_idle:
  assumes "c \<in> set (fst (buildCells w h g))"
  shows "idle_cell c"
  using buildCells_x_nonneg [OF assms] buildCells_fresh [OF assms]
  by (simp add: idle_cell_def fresh_def)

lemma step_idle:
  assumes "idle s" and "\<not> is_Move e"
  shows "idle (step s e)"
proof (cases e)
  case Frame
  from assms(1) have m: "mouseX s = - 9999" "mouseY s = - 9999"
    and c: "\<And>c. c \<in> set (cells s) \<Longrightarrow> idle_cell c"
    by (simp_all add: idle_def)
  have "idle_cell c'" if "c' \<in> set (cells (fst (render s)))" for c'
  proof -
    from that obtain c where "c \<in> set (cells s)"
      and "c' = animate_cell (simulate_cell (- 9999) (- 9999) (time s + 16) c)"
      by (auto simp: cells_render m)
    with c [of c] show ?thesis
      by (simp add: idle_frame_cell)
  qed
  with m Frame show ?thesis
    by (simp add: idle_def render_other)
next
  case (Move ex ey)
  with assms(2) show ?thesis by simp
next
  case Leave
  with assms(1) show ?thesis by (simp add: onLeave_def idle_def)
next
  case (Resize w h)
  with assms(1) show ?thesis
    by (simp add: idle_def resize_simps buildCells_idle)
qed

lemma mount_idle: "idle (mount w h g)"
  by (simp add: mount_def idle_def resize_simps buildCells_idle)

lemma run_idle:
  "idle s \<Longrightarrow> \<forall>e \<in> set es. \<not> is_Move e \<Longrightarrow> idle (run s es)"
proof (induction es arbitrary: s)
  case Nil
  then show ?case by (simp add: run_Nil)
next
  case (Cons e es)
  from Cons.prems have "idle (step s e)"
    by (simp add: step_idle)
  with Cons.prems have "idle (run (step s e) es)"
    by (intro Cons.IH) simp_all
  then show ?case by (simp add: run_Cons)
qed

lemma drawn_connections_lit:
  assumes "(a, b) \<in> set (drawn_connections cs)"
  shows "a < length cs \<and> 10 < lightness (cs ! a) \<and> b < length cs \<and> 10 < lightness (cs ! b)"
  using assms by (auto simp: drawn_connections_def split: if_splits)

lemma idle_no_lines:
  assumes "idle s"
  shows "drawn_connections (cells s) = []"
proof -
  have "False" if "p \<in> set (drawn_connections (cells s))" for p
  proof -
    obtain a b where p: "p = (a, b)" by (cases p)
    from drawn_connections_lit [OF that [unfolded p]]
    have "a < length (cells s)" "10 < lightness (cells s ! a)" by simp_all
    moreover from this(1) assms have "lightness (cells s ! a) = 0"
      by (simp add: idle_def idle_cell_def)
    ultimately show False by simp
  qed
  then show ?thesis
    by (cases "drawn_connections (cells s)") auto
qed

lemma step_unhovered:
  assumes i: "i < length (cells s)"
    and a: "\<not> isActivated (cells s ! i)"
    and r: "\<not> is_Resize e"
    and h: "e = Frame \<longrightarrow> \<not> cellDistance (cells s ! i) (mouseX s) (mouseY s) < influenceRadius"
  shows "length (cells (step s e)) = length (cells s)"
    and "\<not> isActivated (cells (step s e) ! i)"
    and "lightness (cells (step s e) ! i)
           = lightness (cells s ! i) * (if e = Frame then 4 / 5 else 1)"
proof -
  have "length (cells (step s e)) = length (cells s)
        \<and> \<not> isActivated (cells (step s e) ! i)
        \<and> lightness (cells (step s e) ! i)
           = lightness (cells s ! i) * (if e = Frame then 4 / 5 else 1)"
  proof (cases e)
    case Frame
    with h have far: "\<not> cellDistance (cells s ! i) (mouseX s) (mouseY s) < influenceRadius"
      by simp
    note u = unhovered_frame [OF a far, of "time s + 16"]
    from Frame i u show ?thesis
      by (simp add: nth_cells_render cells_render)
  next
    case (Move ex ey)
    with a show ?thesis by (simp add: onMove_def)
  next
    case Leave
    with a show ?thesis by (simp add: onLeave_def)
  next
    case (Resize w h)
    with r show ?thesis by simp
  qed
  then show "length (cells (step s e)) = length (cells s)"
    and "\<not> isActivated (cells (step s e) ! i)"
    and "lightness (cells (step s e) ! i)
           = lightness (cells s ! i) * (if e = Frame then 4 / 5 else 1)"
    by simp_all
qed

lemma run_unhovered:
  assumes "i < length (cells s)"
    and "\<not> isActivated (cells s ! i)"
    and "\<forall>e \<in> set es. \<not> is_Resize e"
    and "never_hovered i s es"
  shows "length (cells (run s es)) = length (cells s)
         \<and> \<not> isActivated (cells (run s es) ! i)
         \<and> lightness (cells (run s es) ! i)
             = lightness (cells s ! i) * (4 / 5) ^ count_list es Frame"
  using assms
proof (induction es arbitrary: s)
  case Nil
  then show ?case by (simp add: run_Nil)
next
  case (Cons e es)
  from Cons.prems have r: "\<not> is_Resize e" and rs: "\<forall>e \<in> set es. \<not> is_Resize e"
    and h: "e = Frame \<longrightarrow>
              \<not> cellDistance (cells s ! i) (mouseX s) (mouseY s) < influenceRadius"
    and hs: "never_hovered i (step s e) es"
    by simp_all
  note st = step_unhovered [OF Cons.prems(1) Cons.prems(2) r h]
  from st(1) Cons.prems(1) have i': "i < length (cells (step s e))"
    by simp
  note ih = Cons.IH [OF i' st(2) rs hs]
  have p: "(if e = Frame then 4 / 5 else 1) * (4 / 5 :: real) ^ count_list es Frame
           = (4 / 5) ^ count_list (e # es) Frame"
    by simp
  have "lightness (cells (run (step s e) es) ! i)
        = lightness (cells s ! i) * ((if e = Frame then 4 / 5 else 1)
            * (4 / 5) ^ count_list es Frame)"
    using ih st(3) by (simp only: mult.assoc)
  with ih st(1) show ?case
    by (simp only: run_Cons p) simp
qed

lemma dark_cell_no_lines:
  assumes "lightness (cs ! i) \<le> 10"
  shows "(i, k) \<notin> set (drawn_connections cs)" and "(k, i) \<notin> set (drawn_connections cs)"
proof -
  show "(i, k) \<notin> set (drawn_connections cs)"
  proof
    assume "(i, k) \<in> set (drawn_connections cs)"
    from drawn_connections_lit [OF this] assms show False by simp
  qed
  show "(k, i) \<notin> set (drawn_connections cs)"
  proof
    assume "(k, i) \<in> set (drawn_connections cs)"
    from drawn_connections_lit [OF this] assms show False by simp
  qed
qed

lemma example_far:
  "\<not> cellDistance (built_cell 12 10 [1]) (- 9999) (- 9999) < influenceRadius"
proof -
  have "\<bar>x_c (built_cell 12 10 [1]) + distortionX (built_cell 12 10 [1]) - (- 9999)\<bar>
        \<le> cellDistance (built_cell 12 10 [1]) (- 9999) (- 9999)"
    by (rule cellDistance_ge_x)
  then have "10011 \<le> cellDistance (built_cell 12 10 [1]) (- 9999) (- 9999)"
    by (simp add: built_cell_simps)
  then show ?thesis by (simp add: influenceRadius_def)
qed

subsection \<open>A displaced cell\<close>

lemma displaced_run_simps:
  "cells displaced_run ! 0
     = animate_cell (simulate_cell (- 9999) (- 9999) 16 (built_cell 12 10 [1]))"
  "mouseX displaced_run = 12"
  "mouseY displaced_run = 10"
  "0 < length (cells displaced_run)"
  by (simp_all add: displaced_run_def run_def onMove_def cells_render mount_example)

lemma example_noise_pos: "0 < noise 12 10 (16 + 3 / 4 * TAU)"
proof -
  define t where "t = 16 + 3 / 4 * TAU"
  have t: "0 < t" "t < 22"
    using pi_ge_two pi_less_4 by (simp_all add: t_def TAU_def)
  have p: "2 \<le> pi" by (rule pi_ge_two)
  have "0 < sin (12 * 0.01 + t * 0.002)"
    by (rule sin_gt_zero) (use t p in simp_all)
  moreover have "0 < sin (10 * 0.015 + t * 0.003)"
    by (rule sin_gt_zero) (use t p in simp_all)
  moreover have "0 < sin ((12 + 10) * 0.008 + t * 0.001)"
    by (rule sin_gt_zero) (use t p in simp_all)
  ultimately have "0 < (sin (12 * 0.01 + t * 0.002) + sin (10 * 0.015 + t * 0.003)
                      + sin ((12 + 10) * 0.008 + t * 0.001)) * 0.33"
    by simp
  then show ?thesis
    by (simp only: noise_def t_def)
qed

lemma tenth_of_noise:
  fixes n :: real
  assumes "\<bar>n\<bar> \<le> 0.99"
  shows "n * 3 * 0.1 \<le> 0.3" and "\<bar>n * 3 * 0.1\<bar> \<le> 0.3"
proof -
  from assms have "- 1 \<le> n" "n \<le> 1"
    by simp_all
  then have b: "- 0.3 \<le> n * 3 * 0.1" "n * 3 * 0.1 \<le> 0.3"
    by argo+
  from b show "n * 3 * 0.1 \<le> 0.3" by simp
  from b show "\<bar>n * 3 * 0.1\<bar> \<le> 0.3" by (simp only: abs_le_iff) argo
qed

lemma displaced_cell:
  "x_c (cells displaced_run ! 0) = 12"
  "y_c (cells displaced_run ! 0) = 10"
  "0 < distortionX (cells displaced_run ! 0)"
  "distortionX (cells displaced_run ! 0) \<le> 0.3"
  "\<bar>distortionY (cells displaced_run ! 0)\<bar> \<le> 0.3"
proof -
  define c0 where "c0 = built_cell 12 10 [1]"
  have c0: "x_c c0 = 12" "y_c c0 = 10" "distortionX c0 = 0" "distortionY c0 = 0"
    "noiseOffset c0 = 3 / 4 * TAU"
    by (simp_all add: c0_def built_cell_simps)
  have cell: "cells displaced_run ! 0 = animate_cell (simulate_cell (- 9999) (- 9999) 16 c0)"
    unfolding c0_def by (rule displaced_run_simps(1))
  have "\<bar>x_c c0 + distortionX c0 - (- 9999)\<bar> \<le> cellDistance c0 (- 9999) (- 9999)"
    by (rule cellDistance_ge_x)
  then have "10011 \<le> cellDistance c0 (- 9999) (- 9999)"
    by (simp add: c0)
  then have far: "\<not> cellDistance c0 (- 9999) (- 9999) < 120"
    by simp
  note sf = simulate_cell_far [OF far, of 16]
  have dx: "distortionX (cells displaced_run ! 0) = noise 12 10 (16 + 3 / 4 * TAU) * 3 * 0.1"
    by (simp add: cell animate_cell_distortion sf simulate_cell_fixed c0)
  have dy: "distortionY (cells displaced_run ! 0) = noise 10 12 (16 + 3 / 4 * TAU + 100) * 3 * 0.1"
    by (simp add: cell animate_cell_distortion sf simulate_cell_fixed c0)
  show "x_c (cells displaced_run ! 0) = 12" "y_c (cells displaced_run ! 0) = 10"
    by (simp_all add: cell animate_cell_fixed simulate_cell_fixed c0)
  from example_noise_pos show "0 < distortionX (cells displaced_run ! 0)"
    unfolding dx by simp
  have "\<bar>noise 12 10 (16 + 3 / 4 * TAU)\<bar> \<le> 0.99"
    by (rule noise_bound)
  then show "distortionX (cells displaced_run ! 0) \<le> 0.3"
    unfolding dx by (rule tenth_of_noise)
  have "\<bar>noise 10 12 (16 + 3 / 4 * TAU + 100)\<bar> \<le> 0.99"
    by (rule noise_bound)
  then show "\<bar>distortionY (cells displaced_run ! 0)\<bar> \<le> 0.3"
    unfolding dy by (rule tenth_of_noise)
qed

subsection \<open>The brightness target\<close>

text \<open>
  C1, as amended. The distance \<open>d\<close> of a cell is measured from its displaced position
  \<open>(x + distortionX, y + distortionY)\<close>. A frame in which \<open>d < 80\<close> sets
  \<open>targetL = 70 + (1 - d / 80) * 30\<close>; at \<open>d = 0\<close> this is 100, and \<open>d = 0\<close> holds
  when the pointer is at the displaced position, which is the lattice coordinate
  when the cell's distortion is zero.
\<close>

theorem targetL_when_hovered:
  assumes "i < length (cells s)"
  shows "let c = cells s ! i;
             d = cellDistance c (mouseX s) (mouseY s);
             c' = cells (fst (render s)) ! i
         in (d < 80 \<longrightarrow> targetL c' = 70 + (1 - d / 80) * 30)
            \<and> (d = 0 \<longrightarrow> targetL c' = 100)
            \<and> (mouseX s = x_c c + distortionX c \<and> mouseY s = y_c c + distortionY c \<longrightarrow> d = 0)"
  using assms
  by (simp add: nth_cells_render animate_cell_fixed simulate_cell_targetL
        influenceRadius_def cellDistance_at_cell Let_def)

theorem targetL_when_hovered_witness:
  "0 < length (cells (example_state 0 0))
   \<and> mouseX (example_state 0 0) = x_c example_cell + distortionX example_cell
   \<and> mouseY (example_state 0 0) = y_c example_cell + distortionY example_cell
   \<and> cellDistance (cells (example_state 0 0) ! 0) (mouseX (example_state 0 0))
        (mouseY (example_state 0 0)) = 0
   \<and> targetL (cells (fst (render (example_state 0 0))) ! 0) = 100"
proof -
  have a: "0 < length (cells (example_state 0 0))"
    by (simp add: example_state_def)
  have c: "cells (example_state 0 0) ! 0 = example_cell"
    by (simp add: example_state_def)
  have m: "mouseX (example_state 0 0) = 0" "mouseY (example_state 0 0) = 0"
    by (simp_all add: example_state_def)
  from targetL_when_hovered [OF a] show ?thesis
    by (simp add: Let_def example_state_simps example_cell_simps example_distance)
qed

text \<open>
  C1 as stated fails where it speaks of the lattice coordinate. After one frame the
  noise has displaced the first cell of the example grid; with the pointer then put on
  the cell's lattice coordinate \<open>(12, 10)\<close> the distance is small but not 0, and the
  frame computes a \<open>targetL\<close> below 100.
\<close>

theorem pointer_on_lattice_counterexample:
  "displaced_run = run (mount 120 100 example_rng) [Frame, Move 12 10]
   \<and> mouseX displaced_run = x_c (cells displaced_run ! 0)
   \<and> mouseY displaced_run = y_c (cells displaced_run ! 0)
   \<and> cellDistance (cells displaced_run ! 0) (mouseX displaced_run) (mouseY displaced_run) < 80
   \<and> targetL (cells (fst (render displaced_run)) ! 0) \<noteq> 100"
proof -
  define c where "c = cells displaced_run ! 0"
  define d where "d = cellDistance c 12 10"
  note f = displaced_cell [folded c_def]
  have "\<bar>x_c c + distortionX c - 12\<bar> \<le> d"
    unfolding d_def by (rule cellDistance_ge_x)
  with f have pos: "0 < d" by simp
  have "d \<le> \<bar>x_c c + distortionX c - 12\<bar> + \<bar>y_c c + distortionY c - 10\<bar>"
    unfolding d_def by (rule cellDistance_le_sum)
  with f have near: "d < 80" by simp
  have "cells (fst (render displaced_run)) ! 0
        = animate_cell (simulate_cell 12 10 (time displaced_run + 16) c)"
    using nth_cells_render [OF displaced_run_simps(4)]
    by (simp only: displaced_run_simps(2,3) c_def)
  then have "targetL (cells (fst (render displaced_run)) ! 0) = 70 + (1 - d / 80) * 30"
    using near
    by (simp add: animate_cell_fixed simulate_cell_targetL Let_def influenceRadius_def
          d_def [symmetric])
  with pos have "targetL (cells (fst (render displaced_run)) ! 0) \<noteq> 100"
    by simp
  with near f displaced_run_def show ?thesis
    by (simp add: displaced_run_simps(2,3) c_def [symmetric] d_def [symmetric])
qed

text \<open>
  C2. An activated cell that is not hovered in a frame: while the time since its last
  hover, measured on the clock of that frame, is below 2000, the frame sets
  \<open>targetL = 65 * (1 - timeSinceLastHover / 2000)\<close>; otherwise it sets \<open>targetL = 0\<close>
  and clears \<open>isActivated\<close>.
\<close>

theorem fade_when_not_hovered:
  assumes "i < length (cells s)"
    and "isActivated (cells s ! i)"
    and "\<not> cellDistance (cells s ! i) (mouseX s) (mouseY s) < influenceRadius"
  shows "let c' = cells (fst (render s)) ! i;
             timeSinceLastHover = time (fst (render s)) - lastHoverTime (cells s ! i)
         in if timeSinceLastHover < 2000
            then targetL c' = 65 * (1 - timeSinceLastHover / 2000)
            else targetL c' = 0 \<and> \<not> isActivated c'"
  using assms
  by (simp add: nth_cells_render animate_cell_fixed simulate_cell_targetL
        simulate_cell_isActivated render_other fadeOutDuration_def Let_def)

theorem fade_when_not_hovered_witness:
  "0 < length (cells (example_state 100 0))
   \<and> isActivated (cells (example_state 100 0) ! 0)
   \<and> \<not> cellDistance (cells (example_state 100 0) ! 0) (mouseX (example_state 100 0))
          (mouseY (example_state 100 0)) < influenceRadius
   \<and> targetL (cells (fst (render (example_state 100 0))) ! 0) = 65 * (1 - 16 / 2000)"
proof -
  have a: "0 < length (cells (example_state 100 0))"
    by (simp add: example_state_def)
  have b: "isActivated (cells (example_state 100 0) ! 0)"
    by (simp add: example_state_def example_cell_def)
  have c: "\<not> cellDistance (cells (example_state 100 0) ! 0) (mouseX (example_state 100 0))
          (mouseY (example_state 100 0)) < influenceRadius"
    by (simp add: example_state_def example_distance influenceRadius_def)
  have t: "time (fst (render (example_state 100 0))) = 16"
    by (simp add: render_other example_state_def)
  have l: "lastHoverTime (cells (example_state 100 0) ! 0) = 0"
    by (simp add: example_state_def example_cell_def)
  from fade_when_not_hovered [OF a b c] a b c show ?thesis
    by (simp add: Let_def t l)
qed

subsection \<open>Easing\<close>

text \<open>
  C7. In a frame where the cell is hovered, its \<open>targetL\<close> lies in \<open>[70, 100]\<close>. In
  every frame the easing moves \<open>lightness\<close> toward the frame's \<open>targetL\<close> without
  passing it (the gap shrinks by the factor 0.8), and when \<open>targetL\<close> equals the
  \<open>lightness\<close> the frame leaves \<open>lightness\<close> unchanged.
\<close>

theorem easing_toward_target:
  assumes "i < length (cells s)"
  shows "let c = cells s ! i;
             c' = cells (fst (render s)) ! i;
             l = lightness c; l' = lightness c'; T = targetL c'
         in (cellDistance c (mouseX s) (mouseY s) < influenceRadius \<longrightarrow> 70 \<le> T \<and> T \<le> 100)
            \<and> (l \<le> T \<longrightarrow> l \<le> l' \<and> l' \<le> T)
            \<and> (T \<le> l \<longrightarrow> T \<le> l' \<and> l' \<le> l)
            \<and> \<bar>T - l'\<bar> = 0.8 * \<bar>T - l\<bar>
            \<and> (T = l \<longrightarrow> l' = l)"
proof -
  define c where "c = cells s ! i"
  define d where "d = cellDistance c (mouseX s) (mouseY s)"
  define sc where "sc = simulate_cell (mouseX s) (mouseY s) (time s + 16) c"
  define T where "T = targetL sc"
  define l where "l = lightness c"
  have c': "cells (fst (render s)) ! i = animate_cell sc"
    using assms by (simp add: nth_cells_render sc_def c_def)
  have T': "targetL (animate_cell sc) = T"
    by (simp add: animate_cell_fixed T_def)
  have l': "lightness (animate_cell sc) = l + (T - l) * 0.2"
    by (simp add: animate_cell_fixed simulate_cell_fixed T_def l_def sc_def)
  have hov: "70 \<le> T \<and> T \<le> 100" if "d < influenceRadius"
  proof -
    have "0 \<le> d" by (simp add: d_def cellDistance_nonneg)
    moreover have "T = 70 + (1 - d / 80) * 30"
      using that by (simp add: T_def sc_def simulate_cell_targetL d_def influenceRadius_def Let_def)
    ultimately show ?thesis using that by (simp add: influenceRadius_def)
  qed
  have abs: "\<bar>T - (l + (T - l) * 0.2)\<bar> = 0.8 * \<bar>T - l\<bar>"
    by argo
  have up: "l \<le> T \<longrightarrow> l \<le> l + (T - l) * 0.2 \<and> l + (T - l) * 0.2 \<le> T"
    by argo
  have down: "T \<le> l \<longrightarrow> T \<le> l + (T - l) * 0.2 \<and> l + (T - l) * 0.2 \<le> l"
    by argo
  have same: "T = l \<longrightarrow> l + (T - l) * 0.2 = l"
    by argo
  have "(d < influenceRadius \<longrightarrow> 70 \<le> T \<and> T \<le> 100)
        \<and> (l \<le> T \<longrightarrow> l \<le> l + (T - l) * 0.2 \<and> l + (T - l) * 0.2 \<le> T)
        \<and> (T \<le> l \<longrightarrow> T \<le> l + (T - l) * 0.2 \<and> l + (T - l) * 0.2 \<le> l)
        \<and> \<bar>T - (l + (T - l) * 0.2)\<bar> = 0.8 * \<bar>T - l\<bar>
        \<and> (T = l \<longrightarrow> l + (T - l) * 0.2 = l)"
    using hov abs up down same by blast
  then show ?thesis
    unfolding Let_def c' T' l' c_def [symmetric] d_def [symmetric] l_def [symmetric]
    by simp
qed

theorem easing_toward_target_witness:
  "0 < length (cells (example_state 0 0))
   \<and> cellDistance (cells (example_state 0 0) ! 0) (mouseX (example_state 0 0))
        (mouseY (example_state 0 0)) < influenceRadius
   \<and> targetL (cells (fst (render (example_state 0 0))) ! 0) = 100
   \<and> lightness (cells (example_state 0 0) ! 0) = 50
   \<and> lightness (cells (fst (render (example_state 0 0))) ! 0) = 60"
proof -
  have a: "0 < length (cells (example_state 0 0))"
    by (simp add: example_state_simps)
  from easing_toward_target [OF a] show ?thesis
    by (simp add: Let_def example_state_simps example_render_hovered example_cell_simps example_distance
          influenceRadius_def)
qed

subsection \<open>What a frame leaves alone\<close>

text \<open>
  C8. A frame keeps the number of cells and leaves \<open>x\<close>, \<open>y\<close>, \<open>size\<close>, \<open>hue\<close>,
  \<open>type\<close>, \<open>noiseOffset\<close> and \<open>connections\<close> of every cell unchanged; the other
  fields are the only ones it writes.
\<close>

theorem frame_keeps_static_fields:
  assumes "i < length (cells s)"
  shows "let c = cells s ! i; c' = cells (fst (render s)) ! i
         in x_c c' = x_c c \<and> y_c c' = y_c c \<and> size_c c' = size_c c \<and> hue c' = hue c
            \<and> type_c c' = type_c c \<and> noiseOffset c' = noiseOffset c
            \<and> connections c' = connections c
            \<and> length (cells (fst (render s))) = length (cells s)"
  using assms
  by (simp add: nth_cells_render animate_cell_fixed simulate_cell_fixed cells_render Let_def)

theorem frame_keeps_static_fields_witness:
  "0 < length (cells (example_state 0 0))
   \<and> x_c (cells (fst (render (example_state 0 0))) ! 0) = 0
   \<and> y_c (cells (fst (render (example_state 0 0))) ! 0) = 0
   \<and> size_c (cells (fst (render (example_state 0 0))) ! 0) = 25
   \<and> hue (cells (fst (render (example_state 0 0))) ! 0) = 200
   \<and> type_c (cells (fst (render (example_state 0 0))) ! 0) = Hex
   \<and> noiseOffset (cells (fst (render (example_state 0 0))) ! 0) = 0
   \<and> connections (cells (fst (render (example_state 0 0))) ! 0) = []
   \<and> lightness (cells (fst (render (example_state 0 0))) ! 0)
        \<noteq> lightness (cells (example_state 0 0) ! 0)"
proof -
  have a: "0 < length (cells (example_state 0 0))"
    by (simp add: example_state_simps)
  have l: "lightness (cells (fst (render (example_state 0 0))) ! 0)
        \<noteq> lightness (cells (example_state 0 0) ! 0)"
    by (simp add: example_render_hovered example_state_simps example_cell_simps)
  from frame_keeps_static_fields [OF a] l show ?thesis
    by (simp add: Let_def example_state_simps example_cell_simps)
qed

subsection \<open>The builder\<close>

text \<open>
  C4. Every cell that \<open>buildCells w h\<close> generates has its lattice position inside the
  working rectangle: \<open>0.1 w \<le> x \<le> 0.1 w + 0.8 w\<close> and \<open>0.1 h \<le> y \<le> 0.1 h + 0.5 h\<close>.
\<close>

theorem cells_inside_working_rectangle:
  "\<forall>c \<in> set (fst (buildCells w h g)).
     0.1 * w \<le> x_c c \<and> x_c c \<le> 0.1 * w + 0.8 * w
     \<and> 0.1 * h \<le> y_c c \<and> y_c c \<le> 0.1 * h + 0.5 * h"
proof
  fix c
  assume "c \<in> set (fst (buildCells w h g))"
  from buildCells_mem [OF this] obtain r k
    where r: "0 \<le> r" "r < \<lfloor>h * 0.5 / rowHeight\<rfloor>"
      and k: "0 \<le> k" "k < \<lfloor>w * 0.8 / hexSpacing\<rfloor>"
      and x: "x_c c = w * 0.1 + real_of_int k * hexSpacing + row_offset r"
      and y: "y_c c = h * 0.1 + real_of_int r * rowHeight"
    by blast
  have sp: "0 < hexSpacing" by (simp add: hexSpacing_eq)
  note kx = below_floor [OF sp k]
  note ry = below_floor [OF rowHeight_pos r]
  have o: "0 \<le> row_offset r" "row_offset r \<le> hexSpacing"
    using row_offset_bounds [of r] sp by simp_all
  from kx o have "0.1 * w \<le> x_c c" "x_c c \<le> 0.1 * w + 0.8 * w"
    unfolding x by simp_all
  moreover from ry rowHeight_pos have "0.1 * h \<le> y_c c" "y_c c \<le> 0.1 * h + 0.5 * h"
    unfolding y by simp_all
  ultimately show "0.1 * w \<le> x_c c \<and> x_c c \<le> 0.1 * w + 0.8 * w
     \<and> 0.1 * h \<le> y_c c \<and> y_c c \<le> 0.1 * h + 0.5 * h"
    by simp
qed

theorem cells_inside_working_rectangle_witness:
  "fst (buildCells 120 100 example_rng) ! 1 \<in> set (fst (buildCells 120 100 example_rng))
   \<and> x_c (fst (buildCells 120 100 example_rng) ! 1) = 57
   \<and> y_c (fst (buildCells 120 100 example_rng) ! 1) = 10
   \<and> 0.1 * 120 \<le> x_c (fst (buildCells 120 100 example_rng) ! 1)
   \<and> x_c (fst (buildCells 120 100 example_rng) ! 1) \<le> 0.1 * 120 + 0.8 * 120
   \<and> 0.1 * 100 \<le> y_c (fst (buildCells 120 100 example_rng) ! 1)
   \<and> y_c (fst (buildCells 120 100 example_rng) ! 1) \<le> 0.1 * 100 + 0.5 * 100"
proof -
  have m: "fst (buildCells 120 100 example_rng) ! 1 \<in> set (fst (buildCells 120 100 example_rng))"
    by (simp add: example_build_cells)
  have v: "x_c (fst (buildCells 120 100 example_rng) ! 1) = 57"
    "y_c (fst (buildCells 120 100 example_rng) ! 1) = 10"
    by (simp_all add: example_build_cells built_cell_simps)
  from cells_inside_working_rectangle [of 120 100 example_rng] m
  have "0.1 * 120 \<le> x_c (fst (buildCells 120 100 example_rng) ! 1)
   \<and> x_c (fst (buildCells 120 100 example_rng) ! 1) \<le> 0.1 * 120 + 0.8 * 120
   \<and> 0.1 * 100 \<le> y_c (fst (buildCells 120 100 example_rng) ! 1)
   \<and> y_c (fst (buildCells 120 100 example_rng) ! 1) \<le> 0.1 * 100 + 0.5 * 100"
    by blast
  with m v show ?thesis by blast
qed

text \<open>
  C5. In the cell list that \<open>buildCells\<close> returns, every entry \<open>j\<close> of the connections
  of the cell at index \<open>i\<close> satisfies \<open>i < j < cellCount\<close>; and a run of frames and
  pointer events without a resize leaves the connections of every cell unchanged.
\<close>

theorem connections_valid_and_fixed:
  "(\<forall>i < length (fst (buildCells w h g)).
      \<forall>j \<in> set (connections (fst (buildCells w h g) ! i)).
        i < j \<and> j < length (fst (buildCells w h g)))
   \<and> ((\<forall>e \<in> set es. \<not> is_Resize e) \<longrightarrow>
        map connections (cells (run s es)) = map connections (cells s))"
  using buildCells_conn_ok [of w h g] run_connections [of es s]
  unfolding conn_ok_def by blast

theorem connections_valid_and_fixed_witness:
  "0 < length (fst (buildCells 120 100 example_rng))
   \<and> 1 \<in> set (connections (fst (buildCells 120 100 example_rng) ! 0))
   \<and> (0::nat) < 1 \<and> 1 < length (fst (buildCells 120 100 example_rng))
   \<and> \<not> is_Resize Frame \<and> \<not> is_Resize (Move 12 10)
   \<and> map connections (cells (run (mount 120 100 example_rng) [Move 12 10, Frame])) = [[1], []]"
proof -
  have b: "0 < length (fst (buildCells 120 100 example_rng))"
    "1 \<in> set (connections (fst (buildCells 120 100 example_rng) ! 0))"
    by (simp_all add: example_build_cells built_cell_simps)
  have e: "\<forall>e \<in> set [Move 12 10, Frame]. \<not> is_Resize e"
    by simp
  have m: "map connections (cells (mount 120 100 example_rng)) = [[1], []]"
    by (simp add: mount_def resize_def example_build built_cell_simps)
  from connections_valid_and_fixed [of 120 100 example_rng "[Move 12 10, Frame]"
      "mount 120 100 example_rng"] b e
  have "1 < length (fst (buildCells 120 100 example_rng))
        \<and> map connections (cells (run (mount 120 100 example_rng) [Move 12 10, Frame]))
            = map connections (cells (mount 120 100 example_rng))"
    by blast
  with b m show ?thesis by simp
qed

text \<open>
  C9. A viewport of width 0 or of height 0 builds the empty cell list (and draws no
  random number). On the empty cell list a frame updates no cell, paints no cell
  shape and strokes no connection line: what is left of the log are the four style
  settings around the connection loop.
\<close>

theorem zero_viewport_is_harmless:
  "(w = 0 \<or> h = 0 \<longrightarrow> buildCells w h g = ([], g))
   \<and> (cells s = [] \<longrightarrow>
        cells (fst (render s)) = []
        \<and> drawn_connections (cells (fst (render s))) = []
        \<and> snd (render s) =
            [SetStrokeStyle (Rgba 0 255 200 0.2), SetLineWidth 1, SetLineDash [5, 5],
             SetLineDash []])"
  using buildCells_empty [of w h g] render_Nil [of s]
  by (simp add: drawConnections_Nil)

theorem zero_viewport_is_harmless_witness:
  "buildCells 0 600 example_rng = ([], example_rng)
   \<and> buildCells 800 0 example_rng = ([], example_rng)
   \<and> cells (mount 0 0 example_rng) = []
   \<and> cells (fst (render (mount 0 0 example_rng))) = []
   \<and> snd (render (mount 0 0 example_rng)) =
        [SetStrokeStyle (Rgba 0 255 200 0.2), SetLineWidth 1, SetLineDash [5, 5],
         SetLineDash []]"
proof -
  have a: "buildCells 0 600 example_rng = ([], example_rng)"
    using zero_viewport_is_harmless [of 0 600 example_rng] by simp
  have b: "buildCells 800 0 example_rng = ([], example_rng)"
    using zero_viewport_is_harmless [of 800 0 example_rng] by simp
  have c: "buildCells 0 0 example_rng = ([], example_rng)"
    using zero_viewport_is_harmless [of 0 0 example_rng] by simp
  have m: "cells (mount 0 0 example_rng) = []"
    by (simp add: mount_def resize_def c)
  from zero_viewport_is_harmless [of 0 0 example_rng "mount 0 0 example_rng"] m a b
  show ?thesis by simp
qed

subsection \<open>Randomness\<close>

text \<open>
  C10. The outcome of a frame (the updated cells, the clock, the operations painted) is
  a function of the cells, the pointer and the clock: two states that agree on these
  give the same outcome whatever their random sources hold, and the frame leaves the
  random source untouched. The builder is where the source is read: \<open>resize\<close> hands
  on what \<open>buildCells\<close> leaves of it, and two sources build different grids.
\<close>

theorem frame_uses_no_randomness:
  "(cells s1 = cells s2 \<and> mouseX s1 = mouseX s2 \<and> mouseY s1 = mouseY s2 \<and> time s1 = time s2
      \<longrightarrow> cells (fst (render s1)) = cells (fst (render s2))
          \<and> time (fst (render s1)) = time (fst (render s2))
          \<and> snd (render s1) = snd (render s2))
   \<and> rng (fst (render s)) = rng s
   \<and> rng (resize w h s) = snd (buildCells w h (rng s))
   \<and> fst (buildCells 120 100 example_rng) \<noteq> fst (buildCells 120 100 (\<lambda>n. 0))"
proof -
  have zero: "place_cell px py (cs, \<lambda>n. 0) = (cs, \<lambda>n. 0)" for px py cs
    by (simp add: place_cell_def random_def)
  have "row_loop 12 10 2 1 0 ([], \<lambda>n. 0) = ([], \<lambda>n. 0)"
    by (simp add: row_loop_step row_loop_stop col_loop_step col_loop_stop zero)
  then have "fst (buildCells 120 100 (\<lambda>n. 0)) = []"
    by (simp add: buildCells_def example_rows example_cols outer_loop_stop)
  then have d: "fst (buildCells 120 100 example_rng) \<noteq> fst (buildCells 120 100 (\<lambda>n. 0))"
    by (simp add: example_build_cells)
  have r: "rng (resize w h s) = snd (buildCells w h (rng s))"
    by (simp add: resize_def split: prod.splits)
  show ?thesis
    using d r by (simp add: render_def Let_def)
qed

theorem frame_uses_no_randomness_witness:
  "cells (example_state 0 0) = cells ((example_state 0 0)\<lparr>rng := example_rng\<rparr>)
   \<and> rng (example_state 0 0) \<noteq> rng ((example_state 0 0)\<lparr>rng := example_rng\<rparr>)
   \<and> cells (fst (render (example_state 0 0)))
       = cells (fst (render ((example_state 0 0)\<lparr>rng := example_rng\<rparr>)))
   \<and> snd (render (example_state 0 0)) = snd (render ((example_state 0 0)\<lparr>rng := example_rng\<rparr>))"
proof -
  have "rng (example_state 0 0) 0 \<noteq> example_rng 0"
    by (simp add: example_state_def example_rng_def)
  then have n: "rng (example_state 0 0) \<noteq> rng ((example_state 0 0)\<lparr>rng := example_rng\<rparr>)"
    by auto
  from frame_uses_no_randomness [of "example_state 0 0" "(example_state 0 0)\<lparr>rng := example_rng\<rparr>"]
    n show ?thesis by simp
qed

subsection \<open>Brightness stays a percentage\<close>

text \<open>
  C6. In every state the component can reach (mounting with any viewport and random
  source, then frames, pointer moves and leaves, and resizes in any order) every cell has \<open>lightness\<close> and \<open>targetL\<close> in
  \<open>[0, 100]\<close>: the target a frame computes is in that range, and the easing keeps the
  lightness there, from the value 0 of the build.
\<close>

theorem lightness_stays_in_range:
  "\<forall>c \<in> set (cells (run (mount w h g) es)).
     0 \<le> lightness c \<and> lightness c \<le> 100 \<and> 0 \<le> targetL c \<and> targetL c \<le> 100"
  using run_state_ok [OF mount_state_ok, of w h g es]
  by (simp add: state_ok_def cell_ok_def)

theorem lightness_stays_in_range_witness:
  "hover_run = run (mount 120 100 example_rng) [Move 12 10, Frame]
   \<and> cells hover_run ! 0 \<in> set (cells hover_run)
   \<and> lightness (cells hover_run ! 0) = 20
   \<and> targetL (cells hover_run ! 0) = 100
   \<and> 0 \<le> lightness (cells hover_run ! 0) \<and> lightness (cells hover_run ! 0) \<le> 100
   \<and> 0 \<le> targetL (cells hover_run ! 0) \<and> targetL (cells hover_run ! 0) \<le> 100"
proof -
  have m: "cells hover_run ! 0 \<in> set (cells hover_run)"
    by (simp add: hover_run_def run_def onMove_def cells_render mount_example)
  from lightness_stays_in_range [of 120 100 example_rng "[Move 12 10, Frame]"] m
  have "0 \<le> lightness (cells hover_run ! 0) \<and> lightness (cells hover_run ! 0) \<le> 100
   \<and> 0 \<le> targetL (cells hover_run ! 0) \<and> targetL (cells hover_run ! 0) \<le> 100"
    unfolding hover_run_def by blast
  with hover_run_def m hover_run_values show ?thesis
    by blast
qed

subsection \<open>Cells that are never hovered\<close>

text \<open>
  C3. A cell that is not activated and is outside the influence radius in every frame
  of a run without resize is not activated after the run, and its \<open>lightness\<close> is the
  initial one times \<open>0.8\<close> per frame: it stays 0 when it was 0, and then no connection
  line is drawn from or to the cell. In particular, from mounting on and as long as the
  pointer is never moved (it holds the sentinel \<open>(-9999, -9999)\<close>), every cell is not
  activated, has \<open>lightness\<close> 0, and no connection line is drawn at all.
\<close>

theorem unhovered_cell_stays_dark:
  "(i < length (cells s) \<and> \<not> isActivated (cells s ! i)
      \<and> (\<forall>e \<in> set es. \<not> is_Resize e) \<and> never_hovered i s es
    \<longrightarrow> \<not> isActivated (cells (run s es) ! i)
        \<and> lightness (cells (run s es) ! i)
            = lightness (cells s ! i) * (4 / 5) ^ count_list es Frame
        \<and> (lightness (cells s ! i) = 0 \<longrightarrow>
             lightness (cells (run s es) ! i) = 0
             \<and> (\<forall>k. (i, k) \<notin> set (drawn_connections (cells (run s es)))
                    \<and> (k, i) \<notin> set (drawn_connections (cells (run s es))))))
   \<and> ((\<forall>e \<in> set es. \<not> is_Move e) \<longrightarrow>
         (\<forall>c \<in> set (cells (run (mount w h g) es)). \<not> isActivated c \<and> lightness c = 0)
         \<and> drawn_connections (cells (run (mount w h g) es)) = [])"
proof (intro conjI impI)
  assume A: "i < length (cells s) \<and> \<not> isActivated (cells s ! i)
      \<and> (\<forall>e \<in> set es. \<not> is_Resize e) \<and> never_hovered i s es"
  then have u: "\<not> isActivated (cells (run s es) ! i)
         \<and> lightness (cells (run s es) ! i)
             = lightness (cells s ! i) * (4 / 5) ^ count_list es Frame"
    using run_unhovered [of i s es] by blast
  from u show "\<not> isActivated (cells (run s es) ! i)" by blast
  from u show "lightness (cells (run s es) ! i)
             = lightness (cells s ! i) * (4 / 5) ^ count_list es Frame" by blast
  assume z: "lightness (cells s ! i) = 0"
  with u show l0: "lightness (cells (run s es) ! i) = 0" by simp
  then have "lightness (cells (run s es) ! i) \<le> 10" by simp
  from dark_cell_no_lines [OF this]
  show "\<forall>k. (i, k) \<notin> set (drawn_connections (cells (run s es)))
                    \<and> (k, i) \<notin> set (drawn_connections (cells (run s es)))"
    by blast
next
  assume "\<forall>e \<in> set es. \<not> is_Move e"
  with mount_idle [of w h g] have I: "idle (run (mount w h g) es)"
    by (rule run_idle)
  then show "\<forall>c \<in> set (cells (run (mount w h g) es)). \<not> isActivated c \<and> lightness c = 0"
    by (simp add: idle_def idle_cell_def)
  from I show "drawn_connections (cells (run (mount w h g) es)) = []"
    by (rule idle_no_lines)
qed

theorem unhovered_cell_stays_dark_witness:
  "0 < length (cells (mount 120 100 example_rng))
   \<and> \<not> isActivated (cells (mount 120 100 example_rng) ! 0)
   \<and> \<not> is_Resize Frame
   \<and> never_hovered 0 (mount 120 100 example_rng) [Frame, Frame]
   \<and> connections (cells (mount 120 100 example_rng) ! 0) = [1]
   \<and> \<not> isActivated (cells (run (mount 120 100 example_rng) [Frame, Frame]) ! 0)
   \<and> lightness (cells (run (mount 120 100 example_rng) [Frame, Frame]) ! 0) = 0
   \<and> (0, 1) \<notin> set (drawn_connections (cells (run (mount 120 100 example_rng) [Frame, Frame])))
   \<and> drawn_connections (cells (run (mount 120 100 example_rng) [Frame, Frame])) = []"
proof -
  define s where "s = mount 120 100 example_rng"
  have c: "cells s ! 0 = built_cell 12 10 [1]" and n: "0 < length (cells s)"
    and m: "mouseX s = - 9999" "mouseY s = - 9999"
    by (simp_all add: s_def mount_example)
  have a: "\<not> isActivated (cells s ! 0)" and l: "lightness (cells s ! 0) = 0"
    and j: "connections (cells s ! 0) = [1]"
    by (simp_all add: c built_cell_simps)
  have r: "\<forall>e \<in> set [Frame, Frame]. \<not> is_Resize e" "\<forall>e \<in> set [Frame, Frame]. \<not> is_Move e"
    by simp_all
  have i1: "idle (step s Frame)"
    unfolding s_def by (rule step_idle [OF mount_idle]) simp
  have n1: "0 < length (cells (step s Frame))"
    using n by (simp add: cells_render)
  have "0 \<le> x_c (cells (step s Frame) ! 0)" "\<bar>distortionX (cells (step s Frame) ! 0)\<bar> \<le> 3"
    using i1 n1 by (simp_all add: idle_def idle_cell_def)
  then have "9996 \<le> \<bar>x_c (cells (step s Frame) ! 0) + distortionX (cells (step s Frame) ! 0)
                      - (- 9999)\<bar>"
    by simp
  also have "\<dots> \<le> cellDistance (cells (step s Frame) ! 0) (- 9999) (- 9999)"
    by (rule cellDistance_ge_x)
  finally have far1:
    "\<not> cellDistance (cells (step s Frame) ! 0) (- 9999) (- 9999) < influenceRadius"
    by (simp add: influenceRadius_def)
  have h: "never_hovered 0 s [Frame, Frame]"
    using example_far far1 by (simp add: c m render_other)
  from unhovered_cell_stays_dark [of 0 s "[Frame, Frame]" 120 100 example_rng] n a r h l j
  show ?thesis
    unfolding s_def [symmetric] by simp
qed

end
